theory Spec2Isabelle
  imports Complex_Main "HOL-Library.Word"
begin

unbundle bit_operations_syntax

section \<open>Camera.py: chunking of the file to upload\<close>

text \<open>
  \<^verbatim>\<open>write_iterations = (total_bytes_to_write // intermediate_buffer_size) +
      (0 if ((total_bytes_to_write % intermediate_buffer_size) == 0) else 1)\<close>

  Python integers are unbounded and \<open>//\<close>, \<open>%\<close> round towards minus infinity, as
  \<open>div\<close> and \<open>mod\<close> on \<open>int\<close> do. A zero buffer size raises ZeroDivisionError in the
  source; the caller \<open>file_access_upload_body\<close> tests for it before it uses this value.
\<close>

definition write_iterations :: "int \<Rightarrow> int \<Rightarrow> int" where
  "write_iterations total_bytes_to_write intermediate_buffer_size =
     (total_bytes_to_write div intermediate_buffer_size) +
     (if total_bytes_to_write mod intermediate_buffer_size = 0 then 0 else 1)"

text \<open>
  \<^verbatim>\<open>sections = []
  for index in range(write_iterations):
      num = index * intermediate_buffer_size
      if num == 0:
          continue
      sections.append(num)\<close>
\<close>

definition sections :: "int \<Rightarrow> int \<Rightarrow> int list" where
  "sections iterations intermediate_buffer_size =
     filter (\<lambda>num. num \<noteq> 0)
       (map (\<lambda>index. int index * intermediate_buffer_size) [0 ..< nat iterations])"

text \<open>
  A Python slice \<open>xs[st:end]\<close> with integer bounds: a negative bound counts from the
  end, and both bounds are clipped into \<open>0 .. len(xs)\<close>.
\<close>

definition slice_bound :: "nat \<Rightarrow> int \<Rightarrow> nat" where
  "slice_bound n i = (if i < 0 then nat (max 0 (i + int n)) else min (nat i) n)"

definition py_slice :: "'a list \<Rightarrow> int \<Rightarrow> int \<Rightarrow> 'a list" where
  "py_slice xs st en =
     (let s = slice_bound (length xs) st; e = slice_bound (length xs) en
      in take (e - s) (drop s xs))"

text \<open>
  \<open>numpy.array_split(ary, indices)\<close> for a one-dimensional array and a list of
  indices, as the library computes it:
  \<^verbatim>\<open>Nsections = len(indices) + 1
  div_points = [0] + list(indices) + [Ntotal]
  for i in range(Nsections):
      st = div_points[i]; end = div_points[i + 1]
      sub_arys.append(ary[st:end])\<close>
\<close>

definition array_split :: "'a list \<Rightarrow> int list \<Rightarrow> 'a list list" where
  "array_split ary indices =
     (let div_points = [0] @ indices @ [int (length ary)]
      in map (\<lambda>(st, en). py_slice ary st en) (zip div_points (tl div_points)))"

text \<open>
  \<open>split_data = np.array_split(file_data, sections)\<close>, for the file bytes and the
  buffer size read from the camera.
\<close>

definition split_data :: "'a list \<Rightarrow> int \<Rightarrow> 'a list list" where
  "split_data file_data intermediate_buffer_size =
     array_split file_data
       (sections (write_iterations (int (length file_data)) intermediate_buffer_size)
          intermediate_buffer_size)"

section \<open>Camera.py: conversion of an 8-bit raster to the 10-bit container\<close>

text \<open>
  \<^verbatim>\<open>output_data = input_np_arr_data.astype('uint16')
  output_data = output_data << 2
  output_data.tofile(output_file)
  return True\<close>

  The image is a numpy array of \<open>uint8\<close> samples, taken here in the order in which
  \<open>tofile\<close> writes it. The function returns \<open>True\<close> and the raster written to the file.
\<close>

definition convert_raw_image_8bit_to_10bit :: "8 word list \<Rightarrow> bool \<times> 16 word list" where
  "convert_raw_image_8bit_to_10bit input_np_arr_data =
     (let output_data = map (\<lambda>v. (ucast v :: 16 word)) input_np_arr_data;
          output_data = map (\<lambda>w. push_bit 2 w) output_data
      in (True, output_data))"


text \<open>
  \<open>tofile\<close> writes each 16-bit sample in the byte order of the host; the hosts the
  vendor library runs on are little-endian.
\<close>

definition tofile_bytes :: "16 word list \<Rightarrow> 8 word list" where
  "tofile_bytes raster = concat (map (\<lambda>w. [ucast w, ucast (drop_bit 8 w)]) raster)"

section \<open>The camera as the code sees it\<close>

text \<open>
  The vendor library is not part of the repository. A camera is described by what it
  answers to the calls the code makes: the access mode of each node and enumeration
  entry (the library's \<open>IsAvailable\<close>, \<open>IsWritable\<close> and \<open>IsReadable\<close> are tests of this
  mode; a node that does not exist is not implemented), the values it holds, which
  writes it rejects with a \<open>SpinnakerException\<close>, and how it reacts to each file
  operation.
\<close>

datatype access_mode = NI | NA | WO | RO | RW

definition IsAvailable :: "access_mode \<Rightarrow> bool" where
  "IsAvailable m = (m \<noteq> NI \<and> m \<noteq> NA)"

definition IsWritable :: "access_mode \<Rightarrow> bool" where
  "IsWritable m = (m = WO \<or> m = RW)"

definition IsReadable :: "access_mode \<Rightarrow> bool" where
  "IsReadable m = (m = RO \<or> m = RW)"

text \<open>
  The reaction of the camera to a file operation: the operation status is
  \<open>FileOperationStatus_Success\<close>, it is some other status, or one of the calls that
  select, execute and read the status raises a \<open>SpinnakerException\<close>.
\<close>

datatype response = Success | Failure | Throws

datatype file_op = Delete | Open | Write | Close

datatype exn =
  SpinnakerException | FileAccessError | ZeroDivisionError | IndexError | OSError
  | NameError | KeyError | TypeError | ValueError

text \<open>The calls that change the camera, in the order the code makes them.\<close>

datatype event =
  SetIntValue string int
  | SetValue string int
  | SetBuffer "8 word list"
  | FileOperation file_op response
  | Init
  | DeInit

record camera =
  node_mode :: "string \<Rightarrow> access_mode"
  entry_mode :: "string \<Rightarrow> string \<Rightarrow> access_mode"
  entry_value :: "string \<Rightarrow> string \<Rightarrow> int"
  node_max :: "string \<Rightarrow> int"
  set_throws :: "string \<Rightarrow> int \<Rightarrow> bool"
  init_throws :: bool
  deinit_throws :: bool
  file_size :: int
  file_access_length :: int
  file_access_buffer_length :: int
  delete_response :: response
  open_response :: response
  write_response :: "nat \<Rightarrow> response"
  file_operation_result :: "nat \<Rightarrow> int"
  close_response :: response

section \<open>Camera.py: FileAccess\<close>

text \<open>
  Each of the four helpers selects the operation, executes it and compares the status;
  it returns \<open>False\<close> on another status and on a \<open>SpinnakerException\<close>, \<open>True\<close> otherwise.
\<close>

definition succeeded :: "response \<Rightarrow> bool" where
  "succeeded r = (case r of Success \<Rightarrow> True | Failure \<Rightarrow> False | Throws \<Rightarrow> False)"

definition execute_delete_command :: "camera \<Rightarrow> bool" where
  "execute_delete_command cam = succeeded (delete_response cam)"

definition open_file_to_write :: "camera \<Rightarrow> bool" where
  "open_file_to_write cam = succeeded (open_response cam)"

definition execute_write_command :: "camera \<Rightarrow> nat \<Rightarrow> bool" where
  "execute_write_command cam i = succeeded (write_response cam i)"

definition close_file :: "camera \<Rightarrow> bool" where
  "close_file cam = succeeded (close_response cam)"

text \<open>
  A step of the upload either raises, leaving the calls made so far, or goes on with a
  value and the calls made so far.
\<close>

type_synonym 'a step = "(exn \<times> event list) + ('a \<times> event list)"

text \<open>
  Lines 149 to 162 of \<open>file_access_upload\<close>: the file selector is checked and set.
  \<open>cam.FileSelector\<close> and \<open>nodemap.GetNode('FileSelector')\<close> are the same node.
\<close>

definition select_file :: "camera \<Rightarrow> string \<Rightarrow> event list \<Rightarrow> unit step" where
  "select_file cam file_selector calls =
     (if node_mode cam ''FileSelector'' = NA \<or> node_mode cam ''FileSelector'' = NI
      then Inl (FileAccessError, calls)
      else if \<not> IsAvailable (node_mode cam ''FileSelector'')
              \<or> \<not> IsWritable (node_mode cam ''FileSelector'')
      then Inl (FileAccessError, calls)
      else if \<not> IsAvailable (entry_mode cam ''FileSelector'' file_selector)
              \<or> \<not> IsReadable (entry_mode cam ''FileSelector'' file_selector)
      then Inl (FileAccessError, calls)
      else
        let file_selector_entry = entry_value cam ''FileSelector'' file_selector;
            calls = calls @ [SetIntValue ''FileSelector'' file_selector_entry]
        in if set_throws cam ''FileSelector'' file_selector_entry
           then Inl (SpinnakerException, calls)
           else Inr ((), calls))"

text \<open>
  Lines 164 to 172: the file on the camera is deleted when it is not empty, then opened
  for writing.
\<close>

definition delete_and_open :: "camera \<Rightarrow> event list \<Rightarrow> unit step" where
  "delete_and_open cam calls =
     (if file_size cam > 0 \<and> \<not> execute_delete_command cam
      then Inl (FileAccessError, calls @ [FileOperation Delete (delete_response cam)])
      else
        let calls = (if file_size cam > 0
                   then calls @ [FileOperation Delete (delete_response cam)] else calls)
        in if \<not> open_file_to_write cam
           then Inl (FileAccessError, calls @ [FileOperation Open (open_response cam)])
           else Inr ((), calls @ [FileOperation Open (open_response cam)]))"

text \<open>
  Lines 174 to 182: \<open>FileAccessLength\<close> is raised to the length of the buffer node, and
  the offset is set to zero. The result is the value \<open>FileAccessLength\<close> holds afterwards,
  which line 192 reads as \<open>intermediate_buffer_size\<close>: the register is taken to hold what
  was last written to it.
\<close>

definition set_access_length :: "camera \<Rightarrow> event list \<Rightarrow> int step" where
  "set_access_length cam calls =
     (if file_access_length cam < file_access_buffer_length cam
      then
        let calls = calls @ [SetValue ''FileAccessLength'' (file_access_buffer_length cam)]
        in if set_throws cam ''FileAccessLength'' (file_access_buffer_length cam)
           then Inl (FileAccessError, calls)
           else
             let calls = calls @ [SetValue ''FileAccessOffset'' 0]
             in if set_throws cam ''FileAccessOffset'' 0
                then Inl (SpinnakerException, calls)
                else Inr (file_access_buffer_length cam, calls)
      else
        let calls = calls @ [SetValue ''FileAccessOffset'' 0]
        in if set_throws cam ''FileAccessOffset'' 0
           then Inl (SpinnakerException, calls)
           else Inr (file_access_length cam, calls))"

text \<open>
  Lines 218 to 246, the write loop, over the indices \<open>range(write_iterations)\<close> still to
  do. The state is \<open>bytes_left_to_write\<close>, \<open>total_bytes_written\<close> and the calls made.
  Each pass sets the buffer once, lowers \<open>FileAccessLength\<close> when fewer bytes are left
  than the buffer holds, and executes the write; \<open>split_data[i]\<close> raises \<open>IndexError\<close> out
  of range.
\<close>

fun write_loop ::
  "camera \<Rightarrow> 8 word list list \<Rightarrow> int \<Rightarrow> int \<Rightarrow> nat list \<Rightarrow> int \<times> int \<times> event list
     \<Rightarrow> (int \<times> int) step" where
  "write_loop cam split intermediate_buffer_size total_bytes_to_write []
       (bytes_left_to_write, total_bytes_written, calls) =
     Inr ((bytes_left_to_write, total_bytes_written), calls)"
| "write_loop cam split intermediate_buffer_size total_bytes_to_write (i # rest)
       (bytes_left_to_write, total_bytes_written, calls) =
     (if \<not> i < length split then Inl (IndexError, calls)
      else
        let tmp_buffer = split ! i;
            calls = calls @ [SetBuffer tmp_buffer]
        in if intermediate_buffer_size > bytes_left_to_write
              \<and> set_throws cam ''FileAccessLength'' bytes_left_to_write
           then Inl (SpinnakerException,
                     calls @ [SetValue ''FileAccessLength'' bytes_left_to_write])
           else
             let calls = (if intermediate_buffer_size > bytes_left_to_write
                        then calls @ [SetValue ''FileAccessLength'' bytes_left_to_write]
                        else calls);
                 calls = calls @ [FileOperation Write (write_response cam i)]
             in if \<not> execute_write_command cam i
                then Inl (FileAccessError, calls)
                else
                  let size_written = file_operation_result cam i;
                      total_bytes_written = total_bytes_written + size_written;
                      bytes_left_to_write = total_bytes_to_write - total_bytes_written
                  in write_loop cam split intermediate_buffer_size total_bytes_to_write rest
                       (bytes_left_to_write, total_bytes_written, calls))"

text \<open>
  Lines 190 to 246: the number of writes, the split of the file and the write loop. The
  division by a zero buffer size raises.
\<close>

definition write_file :: "camera \<Rightarrow> 8 word list \<Rightarrow> int \<Rightarrow> event list \<Rightarrow> (int \<times> int) step" where
  "write_file cam file_data intermediate_buffer_size calls =
     (let total_bytes_to_write = int (length file_data)
      in if intermediate_buffer_size = 0 then Inl (ZeroDivisionError, calls)
         else
           let iterations = write_iterations total_bytes_to_write intermediate_buffer_size;
               split = split_data file_data intermediate_buffer_size
           in write_loop cam split intermediate_buffer_size total_bytes_to_write
                [0 ..< nat iterations] (total_bytes_to_write, 0, calls))"

text \<open>Line 251: the file is closed.\<close>

definition close_upload :: "camera \<Rightarrow> event list \<Rightarrow> unit step" where
  "close_upload cam calls =
     (if \<not> close_file cam
      then Inl (FileAccessError, calls @ [FileOperation Close (close_response cam)])
      else Inr ((), calls @ [FileOperation Close (close_response cam)]))"

text \<open>
  The body of the \<open>try\<close> block. The file at \<open>file_path\<close> is given by its bytes, or \<open>None\<close>
  when it cannot be opened, which raises \<open>OSError\<close>.
\<close>

definition file_access_upload_body ::
  "camera \<Rightarrow> string \<Rightarrow> 8 word list option \<Rightarrow> unit step" where
  "file_access_upload_body cam file_selector file =
     (case select_file cam file_selector [] of
        Inl raised \<Rightarrow> Inl raised
      | Inr (_, calls) \<Rightarrow>
     (case delete_and_open cam calls of
        Inl raised \<Rightarrow> Inl raised
      | Inr (_, calls) \<Rightarrow>
     (case set_access_length cam calls of
        Inl raised \<Rightarrow> Inl raised
      | Inr (intermediate_buffer_size, calls) \<Rightarrow>
     (case file of
        None \<Rightarrow> Inl (OSError, calls)
      | Some file_data \<Rightarrow>
     (case write_file cam file_data intermediate_buffer_size calls of
        Inl raised \<Rightarrow> Inl raised
      | Inr (_, calls) \<Rightarrow> close_upload cam calls)))))"

text \<open>
  \<open>file_access_upload\<close>: \<open>result\<close> starts as \<open>True\<close>; the handler of \<open>FileAccessError\<close> and
  the handler of every other \<open>Exception\<close> set it to \<open>False\<close>. The value is what the function
  gives its caller (a returned boolean, or an exception that escapes) with the calls made.
\<close>

definition file_access_upload ::
  "camera \<Rightarrow> string \<Rightarrow> 8 word list option \<Rightarrow> (exn + bool) \<times> event list" where
  "file_access_upload cam file_selector file =
     (case file_access_upload_body cam file_selector file of
        Inr (_, calls) \<Rightarrow> (Inr True, calls)
      | Inl (ex, calls) \<Rightarrow>
          (if ex = FileAccessError then (Inr False, calls) else (Inr False, calls)))"

text \<open>
  The number of passes of the write loop in a trace: every pass sets the buffer exactly
  once. A file operation in a trace failed when its status is not success.
\<close>

definition iterations_run :: "event list \<Rightarrow> nat" where
  "iterations_run calls = length (filter (\<lambda>e. case e of SetBuffer _ \<Rightarrow> True | _ \<Rightarrow> False) calls)"

definition failed_operation :: "event \<Rightarrow> bool" where
  "failed_operation e = (case e of FileOperation _ r \<Rightarrow> r \<noteq> Success | _ \<Rightarrow> False)"

definition calls_of :: "'a step \<Rightarrow> event list" where
  "calls_of r = (case r of Inl (_, calls) \<Rightarrow> calls | Inr (_, calls) \<Rightarrow> calls)"


section \<open>Camera.py: the register-configuration routines\<close>

text \<open>
  What a Python function gives its caller is a value, here a boolean or \<open>None\<close>, or an
  exception. Inside a function body a statement completes normally, returns a value or
  raises.
\<close>

datatype pyval = PyBool bool | PyNone

definition truthy :: "pyval \<Rightarrow> bool" where
  "truthy v = (case v of PyBool b \<Rightarrow> b | PyNone \<Rightarrow> False)"

datatype completion = Normal | Return pyval | Raise exn

type_synonym block = "event list \<Rightarrow> completion \<times> event list"

text \<open>
  The statement \<open>if not IsAvailable(node) or not IsWritable(node): print(...); return False\<close>
  followed by the rest of the block.
\<close>

definition return_False_if :: "bool \<Rightarrow> block \<Rightarrow> block" where
  "return_False_if failed rest calls =
     (if failed then (Return (PyBool False), calls) else rest calls)"

text \<open>
  \<open>node.SetIntValue(v)\<close> and \<open>node.SetValue(v)\<close> followed by the rest of the block: the call
  is made, and raises where the camera rejects it.
\<close>

definition set_int_value :: "camera \<Rightarrow> string \<Rightarrow> int \<Rightarrow> block \<Rightarrow> block" where
  "set_int_value cam node v rest calls =
     (if set_throws cam node v then (Raise SpinnakerException, calls @ [SetIntValue node v])
      else rest (calls @ [SetIntValue node v]))"

definition set_value :: "camera \<Rightarrow> string \<Rightarrow> int \<Rightarrow> block \<Rightarrow> block" where
  "set_value cam node v rest calls =
     (if set_throws cam node v then (Raise SpinnakerException, calls @ [SetValue node v])
      else rest (calls @ [SetValue node v]))"

definition camera_Init :: "camera \<Rightarrow> block \<Rightarrow> block" where
  "camera_Init cam rest calls =
     (if init_throws cam then (Raise SpinnakerException, calls @ [Init])
      else rest (calls @ [Init]))"

definition end_of_block :: block where
  "end_of_block calls = (Normal, calls)"

text \<open>The clause \<open>except Exception as e: print(e); return False\<close>.\<close>

definition except_return_False :: "completion \<times> event list \<Rightarrow> completion \<times> event list" where
  "except_return_False r =
     (case r of (Raise e, calls) \<Rightarrow> (Return (PyBool False), calls) | _ \<Rightarrow> r)"

text \<open>
  What the caller gets when the function body has completed: falling off the end of
  the body gives \<open>None\<close>.
\<close>

definition function_result :: "completion \<times> event list \<Rightarrow> (exn + pyval) \<times> event list" where
  "function_result r =
     (case r of
        (Normal, calls) \<Rightarrow> (Inr PyNone, calls)
      | (Return v, calls) \<Rightarrow> (Inr v, calls)
      | (Raise e, calls) \<Rightarrow> (Inl e, calls))"

definition node_unusable :: "camera \<Rightarrow> string \<Rightarrow> bool" where
  "node_unusable cam node =
     (\<not> IsAvailable (node_mode cam node) \<or> \<not> IsWritable (node_mode cam node))"

definition entry_unusable :: "camera \<Rightarrow> string \<Rightarrow> string \<Rightarrow> bool" where
  "entry_unusable cam node entry =
     (\<not> IsAvailable (entry_mode cam node entry) \<or> \<not> IsReadable (entry_mode cam node entry))"

text \<open>The \<open>try\<close> block of \<open>configure_camera_for_image_injection\<close>, lines 424 to 487.\<close>

definition configure_body :: "camera \<Rightarrow> int \<Rightarrow> int \<Rightarrow> block" where
  "configure_body cam width height =
     return_False_if (node_unusable cam ''TestPatternGeneratorSelector'')
    (return_False_if (entry_unusable cam ''TestPatternGeneratorSelector'' ''PipelineStart'')
    (set_int_value cam ''TestPatternGeneratorSelector''
        (entry_value cam ''TestPatternGeneratorSelector'' ''PipelineStart'')
    (return_False_if (node_unusable cam ''TestPattern'')
    (return_False_if (entry_unusable cam ''TestPattern'' ''InjectedImage'')
    (set_int_value cam ''TestPattern'' (entry_value cam ''TestPattern'' ''InjectedImage'')
    (return_False_if (node_unusable cam ''InjectedWidth'')
    (set_value cam ''InjectedWidth'' width
    (return_False_if (node_unusable cam ''Width'')
    (set_value cam ''Width'' width
    (return_False_if (node_unusable cam ''InjectedHeight'')
    (set_value cam ''InjectedHeight'' height
    (return_False_if (node_unusable cam ''Height'')
    (set_value cam ''Height'' height
     end_of_block)))))))))))))"

text \<open>
  \<open>configure_camera_for_image_injection\<close>: the \<open>try\<close> block, the \<open>except\<close> clause, and a
  \<open>finally\<close> clause that does nothing. No statement follows the \<open>try\<close> statement.
\<close>

definition configure_camera_for_image_injection ::
  "camera \<Rightarrow> int \<Rightarrow> int \<Rightarrow> (exn + pyval) \<times> event list" where
  "configure_camera_for_image_injection cam width height =
     function_result (except_return_False (configure_body cam width height []))"

text \<open>The \<open>try\<close> block of \<open>disable_camera_image_injection\<close>, lines 339 to 392.\<close>

definition disable_body :: "camera \<Rightarrow> block" where
  "disable_body cam =
     camera_Init cam
    (return_False_if (node_unusable cam ''TestPatternGeneratorSelector'')
    (return_False_if (entry_unusable cam ''TestPatternGeneratorSelector'' ''PipelineStart'')
    (set_int_value cam ''TestPatternGeneratorSelector''
        (entry_value cam ''TestPatternGeneratorSelector'' ''PipelineStart'')
    (return_False_if (node_unusable cam ''TestPattern'')
    (return_False_if (entry_unusable cam ''TestPattern'' ''Off'')
    (set_int_value cam ''TestPattern'' (entry_value cam ''TestPattern'' ''Off'')
    (return_False_if (node_unusable cam ''Width'')
    (set_value cam ''Width'' (node_max cam ''Width'')
    (return_False_if (node_unusable cam ''Height'')
    (set_value cam ''Height'' (node_max cam ''Height'')
     end_of_block))))))))))"

text \<open>
  The clause \<open>finally: self.camera.DeInit(); return True\<close>. It runs however the \<open>try\<close>
  statement completed; its \<open>return\<close> replaces a value being returned, and an exception
  raised by \<open>DeInit\<close> replaces it as well.
\<close>

definition finally_DeInit_return_True ::
  "camera \<Rightarrow> completion \<times> event list \<Rightarrow> completion \<times> event list" where
  "finally_DeInit_return_True cam r =
     (case r of (_, calls) \<Rightarrow>
        if deinit_throws cam then (Raise SpinnakerException, calls @ [DeInit])
        else (Return (PyBool True), calls @ [DeInit]))"

definition disable_camera_image_injection :: "camera \<Rightarrow> (exn + pyval) \<times> event list" where
  "disable_camera_image_injection cam =
     function_result
       (finally_DeInit_return_True cam (except_return_False (disable_body cam [])))"

text \<open>
  \<open>inject_10bit_image\<close> uploads the file at \<open>input_path\<close> to the file \<open>InjectedImage\<close>.
\<close>

definition inject_10bit_image ::
  "camera \<Rightarrow> 8 word list option \<Rightarrow> (exn + bool) \<times> event list" where
  "inject_10bit_image cam file = file_access_upload cam ''InjectedImage'' file"

text \<open>
  The image given to \<open>inject_mono8_image\<close>: a two-dimensional array of \<open>uint8\<close>, by its
  shape and its samples.
\<close>

record mono8_image =
  shape0 :: int
  shape1 :: int
  samples :: "8 word list"

text \<open>
  \<open>inject_mono8_image\<close>, lines 610 to 626. The raster is written to the temporary file,
  uploaded from there and the file is removed; the host's file system is taken to do
  what it is asked. The result of the upload is only printed.
\<close>

definition inject_mono8_image :: "camera \<Rightarrow> mono8_image \<Rightarrow> (exn + pyval) \<times> event list" where
  "inject_mono8_image cam input_8_bit_img =
     (case convert_raw_image_8bit_to_10bit (samples input_8_bit_img) of
        (result, raster) \<Rightarrow>
          if \<not> result then (Inr (PyBool False), [])
          else
            (case inject_10bit_image cam (Some (tofile_bytes raster)) of
               (Inl ex, calls) \<Rightarrow> (Inl ex, calls)
             | (Inr result, calls) \<Rightarrow>
                 let height = shape0 input_8_bit_img;
                     width = shape1 input_8_bit_img
                 in (case configure_camera_for_image_injection cam width height of
                       (result, calls') \<Rightarrow> (result, calls @ calls'))))"


section \<open>Camera.py: bounding boxes of an image\<close>

datatype box_type =
  INFERENCE_BOX_TYPE_RECTANGLE | INFERENCE_BOX_TYPE_CIRCLE | INFERENCE_BOX_TYPE_ROTATED_RECTANGLE

record rectangle =
  topLeftXCoord :: int
  topLeftYCoord :: int
  bottomRightXCoord :: int
  bottomRightYCoord :: int

record bounding_box =
  boxType :: box_type
  classId :: int
  confidence :: real
  rect :: rectangle

text \<open>
  An image of the vendor library, by the shape of its array and the bounding boxes in
  its chunk data.
\<close>

record spinnaker_image =
  shape :: "int list"
  boxes :: "bounding_box list"

text \<open>
  Python's \<open>a / b\<close> on integers raises on a zero divisor. The quotient is a float; it is
  taken here as the exact quotient, from which the float differs by a rounding that
  keeps the order and the numbers 0 and 1.
\<close>

definition true_divide :: "int \<Rightarrow> int \<Rightarrow> exn + real" where
  "true_divide a b = (if b = 0 then Inl ZeroDivisionError else Inr (real_of_int a / real_of_int b))"

text \<open>\<open>numpy.clip(a, a_min, a_max)\<close> is \<open>minimum(a_max, maximum(a, a_min))\<close>.\<close>

definition np_clip :: "real \<Rightarrow> real \<Rightarrow> real \<Rightarrow> real" where
  "np_clip a a_min a_max = min a_max (max a a_min)"

type_synonym box_entry = "int \<times> real \<times> real \<times> real \<times> real \<times> real"

text \<open>The tuple built at lines 974 to 979, whose four quotients are computed in order.\<close>

definition box_entry :: "int \<Rightarrow> int \<Rightarrow> bounding_box \<Rightarrow> exn + box_entry" where
  "box_entry r c bounding_box =
     (case true_divide (topLeftXCoord (rect bounding_box)) c of Inl ex \<Rightarrow> Inl ex | Inr x1 \<Rightarrow>
      case true_divide (topLeftYCoord (rect bounding_box)) r of Inl ex \<Rightarrow> Inl ex | Inr y1 \<Rightarrow>
      case true_divide (bottomRightXCoord (rect bounding_box)) c of Inl ex \<Rightarrow> Inl ex | Inr x2 \<Rightarrow>
      case true_divide (bottomRightYCoord (rect bounding_box)) r of Inl ex \<Rightarrow> Inl ex | Inr y2 \<Rightarrow>
        Inr (classId bounding_box, confidence bounding_box,
             np_clip x1 0 1, np_clip y1 0 1, np_clip x2 0 1, np_clip y2 0 1))"

text \<open>The loop of lines 970 to 980 over the boxes still to visit.\<close>

fun collect_boxes :: "int \<Rightarrow> int \<Rightarrow> bounding_box list \<Rightarrow> box_entry list \<Rightarrow> exn + box_entry list" where
  "collect_boxes r c [] result = Inr result"
| "collect_boxes r c (bounding_box # rest) result =
     (if boxType bounding_box \<noteq> INFERENCE_BOX_TYPE_RECTANGLE then collect_boxes r c rest result
      else case box_entry r c bounding_box of
             Inl ex \<Rightarrow> Inl ex
           | Inr entry \<Rightarrow> collect_boxes r c rest (result @ [entry]))"

text \<open>\<open>(r, c) = ndarr.shape\<close> raises unless the array has two dimensions.\<close>

definition get_bounding_box_results_from_image :: "spinnaker_image \<Rightarrow> exn + box_entry list" where
  "get_bounding_box_results_from_image spinnaker_image =
     (case shape spinnaker_image of
        [r, c] \<Rightarrow> collect_boxes r c (boxes spinnaker_image) []
      | _ \<Rightarrow> Inl ValueError)"

section \<open>food\_monitor.py and DataHandler.py: the display loops\<close>

text \<open>
  The configuration dictionary read from the JSON file, one field for each key the loops
  use. A dictionary is an association list in insertion order with distinct keys. The
  keys of the inference labels are the decimal strings \<open>f'{cls}'\<close> of the class numbers,
  kept here as the numbers.
\<close>

record configuration =
  LABELS :: "(string \<times> string) list"
  FOLDERS :: "(string \<times> string) list"
  EXTENSION :: string
  ROOT_FOLDER :: string
  INFERENCE_LABELS :: "(int \<times> string) list"
  CONFIDENCE :: real
  DELAY_INTERVAL :: int
  CAMERA_INFERENCE :: bool

text \<open>
  The pictures the loops handle: the frame the camera delivered, a resized copy, a copy
  with a text drawn on it. What the loops do to the outside: show a picture, write one
  to a path, send an HTTP POST with a body to a URL.
\<close>

datatype 'a picture = Captured 'a | Resized "'a picture" | PutText "'a picture" string

datatype 'a action = Imshow "'a picture" | Imwrite string "'a picture" | Post string string

text \<open>
  What one pass of a loop takes from the outside: the frame and the inference result in
  its chunk data, the value of \<open>cv2.waitKey(1)\<close> and the reading of the clock by
  \<open>unique_name_date_time_now\<close>.
\<close>

record 'a tick =
  frame :: 'a
  inference_info :: "int \<times> real \<times> real"
  lame :: int
  now :: string

text \<open>How a pass of the loop ends.\<close>

datatype control = Break | Continue | Raised exn

text \<open>
  \<open>prepare_folders_and_options\<close>: one folder for each label, under the root folder. The
  separator is \<open>/\<close> in DataHandler.py and the one of the platform in food\_monitor.py.
  The creation of the folders on disk is left out.
\<close>

definition prepare_folders_and_options :: "string \<Rightarrow> configuration \<Rightarrow> configuration" where
  "prepare_folders_and_options dirsep configuration =
     configuration\<lparr>FOLDERS :=
        map (\<lambda>(each, name). (each, ROOT_FOLDER configuration @ dirsep @ name))
          (LABELS configuration)\<rparr>"

text \<open>Python's \<open>ord\<close> takes a string of length one.\<close>

definition py_ord :: "string \<Rightarrow> exn + int" where
  "py_ord s = (case s of [c] \<Rightarrow> Inr (of_char c) | _ \<Rightarrow> Inl TypeError)"

text \<open>
  The loop \<open>for a_val in configuration[LABELS]\<close> that ends both display loops, over the
  label keys still to visit. After it the pass is over and the next one starts.
\<close>

fun save_for_labels ::
  "configuration \<Rightarrow> 'a picture \<Rightarrow> int \<Rightarrow> string \<Rightarrow> string list \<Rightarrow> 'a action list
     \<Rightarrow> control \<times> 'a action list" where
  "save_for_labels configuration img key stamp [] made = (Continue, made)"
| "save_for_labels configuration img key stamp (a_val # rest) made =
     (case py_ord a_val of
        Inl ex \<Rightarrow> (Raised ex, made)
      | Inr code \<Rightarrow>
          if key = code then
            (let save_image_name = stamp @ ''.'' @ EXTENSION configuration
             in case map_of (FOLDERS configuration) a_val of
                  None \<Rightarrow> (Raised KeyError, made)
                | Some folder \<Rightarrow>
                    save_for_labels configuration img key stamp rest
                      (made @ [Imwrite (folder @ ''/'' @ save_image_name) img]))
          else save_for_labels configuration img key stamp rest made)"

text \<open>
  DataHandler.py, lines 134 to 172: the dispatch on the key. \<open>ord('\x1b')\<close> is 27,
  \<open>ord('\xbe')\<close> is 190 and \<open>ord('\xbf')\<close> is 191. The HTTP request is taken to return.
\<close>

definition handle_key ::
  "configuration \<Rightarrow> 'a picture \<Rightarrow> int \<Rightarrow> string \<Rightarrow> control \<times> 'a action list" where
  "handle_key configuration img key stamp =
     (if key = 27 then (Break, [])
      else if key = 190 \<or> key = 191 then
        (let url = ''http://192.168.1.75:8080/rest/items/TestSwitch001'';
             data1 = (if key = 190 then ''ON'' else ''OFF'')
         in (Continue, [Post url data1]))
      else if key = - 1 then (Continue, [])
      else save_for_labels configuration img key stamp (map fst (LABELS configuration)) [])"

text \<open>\<open>add_keybindings\<close> draws the list of keys on the displayed picture.\<close>

definition add_keybindings :: "'a picture \<Rightarrow> configuration \<Rightarrow> 'a picture" where
  "add_keybindings displayed_image configuration =
     foldl (\<lambda>shown (each_key, name). PutText shown (each_key @ '':'' @ name))
       (PutText displayed_image ''Esc:Exit'') (LABELS configuration)"

text \<open>
  DataHandler.py, lines 97 to 172: one pass of the loop. The text drawn for the
  inference result is kept as the label of the class.
\<close>

definition data_handler_pass ::
  "configuration \<Rightarrow> bool \<Rightarrow> 'a tick \<Rightarrow> control \<times> 'a action list" where
  "data_handler_pass configuration enable_camera_inference t =
     (let img = Captured (frame t);
          displayed_image = Resized img
      in case (if enable_camera_inference
               then (case inference_info t of (cls, conf, time) \<Rightarrow>
                       case map_of (INFERENCE_LABELS configuration) cls of
                         None \<Rightarrow> Inl KeyError
                       | Some label \<Rightarrow> Inr (PutText displayed_image label))
               else Inr displayed_image) of
           Inl ex \<Rightarrow> (Raised ex, [])
         | Inr displayed_image \<Rightarrow>
             let displayed_image = add_keybindings displayed_image configuration
             in case handle_key configuration img (lame t) (now t) of
                  (ctl, made) \<Rightarrow> (ctl, Imshow displayed_image # made))"

text \<open>
  food\_monitor.py: the local variables of \<open>do_camera_stuff\<close> that live across passes of
  the loop. \<open>cls\<close> and \<open>conf\<close> are bound by the assignment at line 123 only; before it they
  have no value, and reading them raises \<open>UnboundLocalError\<close>, a \<open>NameError\<close>.
\<close>

record locals =
  previous_food_status :: int
  counter :: int
  cls :: "int option"
  conf :: "real option"

text \<open>Lines 103 and 104.\<close>

definition initial_locals :: locals where
  "initial_locals = \<lparr>previous_food_status = 10, counter = 0, cls = None, conf = None\<rparr>"

text \<open>
  Lines 130 and 134 read the thresholds from \<open>config\<close>, which is not the parameter
  \<open>configuration\<close> but a global of the module. It is bound at line 192, when the file
  runs as a script, to the dictionary that line 203 passes to \<open>do_camera_stuff\<close>, the
  only call of that function: during the call the global is the dictionary that the
  parameter names. A read of a global that is not bound raises \<open>NameError\<close>.
\<close>

definition module_global_config :: "configuration \<Rightarrow> configuration option" where
  "module_global_config configuration = Some configuration"

text \<open>
  The condition \<open>cls != previous_food_status and conf > config[CONFIDENCE]\<close>, evaluated
  from left to right; \<open>and\<close> does not evaluate its right operand when the left is false.
\<close>

definition differs_and_confident :: "configuration \<Rightarrow> locals \<Rightarrow> exn + bool" where
  "differs_and_confident configuration st =
     (case cls st of
        None \<Rightarrow> Inl NameError
      | Some c \<Rightarrow>
          if c \<noteq> previous_food_status st then
            (case conf st of
               None \<Rightarrow> Inl NameError
             | Some f \<Rightarrow>
                 case module_global_config configuration of
                   None \<Rightarrow> Inl NameError
                 | Some config \<Rightarrow> Inr (f > CONFIDENCE config))
          else Inr False)"

text \<open>The operand \<open>counter > config[DELAY_INTERVAL]\<close> that line 134 adds to the condition.\<close>

definition counter_exceeds_delay :: "configuration \<Rightarrow> locals \<Rightarrow> exn + bool" where
  "counter_exceeds_delay configuration st =
     (case module_global_config configuration of
        None \<Rightarrow> Inl NameError
      | Some config \<Rightarrow> Inr (counter st > DELAY_INTERVAL config))"

text \<open>Lines 129 to 141: the filter and the change of the food status.\<close>

definition update_food_status ::
  "configuration \<Rightarrow> 'a picture \<Rightarrow> locals \<Rightarrow> (exn + locals) \<times> 'a action list" where
  "update_food_status configuration img st =
     (case differs_and_confident configuration st of
        Inl ex \<Rightarrow> (Inl ex, [])
      | Inr count_it \<Rightarrow>
          let st = (if count_it then st\<lparr>counter := counter st + 1\<rparr> else st)
          in case differs_and_confident configuration st of
               Inl ex \<Rightarrow> (Inl ex, [])
             | Inr changed \<Rightarrow>
                 case (if changed then counter_exceeds_delay configuration st else Inr False) of
                   Inl ex \<Rightarrow> (Inl ex, [])
                 | Inr save \<Rightarrow>
                     if save then
                       (case cls st of
                          None \<Rightarrow> (Inl NameError, [])
                        | Some c \<Rightarrow>
                            case map_of (INFERENCE_LABELS configuration) c of
                              None \<Rightarrow> (Inl KeyError, [])
                            | Some label \<Rightarrow>
                                (Inr (st\<lparr>previous_food_status := c, counter := 0\<rparr>),
                                 [Imwrite (ROOT_FOLDER configuration @ ''/food_status.png'') img]))
                     else (Inr st, []))"

text \<open>Lines 148 to 157: the keys of food\_monitor.py.\<close>

definition monitor_key ::
  "configuration \<Rightarrow> 'a picture \<Rightarrow> int \<Rightarrow> string \<Rightarrow> control \<times> 'a action list" where
  "monitor_key configuration img key stamp =
     (if key = 27 then (Break, [])
      else if key = - 1 then (Continue, [])
      else save_for_labels configuration img key stamp (map fst (LABELS configuration)) [])"

text \<open>Lines 106 to 127: the frame is taken and, with inference, its result is unpacked.\<close>

definition take_frame ::
  "configuration \<Rightarrow> bool \<Rightarrow> locals \<Rightarrow> 'a tick \<Rightarrow> exn + (locals \<times> 'a picture \<times> 'a picture)" where
  "take_frame configuration enable_camera_inference st t =
     (let img = Captured (frame t);
          displayed_image = Resized img
      in if enable_camera_inference then
           (case inference_info t of (c, f, time) \<Rightarrow>
              let st = st\<lparr>cls := Some c, conf := Some f\<rparr>
              in case map_of (INFERENCE_LABELS configuration) c of
                   None \<Rightarrow> Inl KeyError
                 | Some label \<Rightarrow> Inr (st, img, PutText displayed_image label))
         else Inr (st, img, displayed_image))"

text \<open>Lines 105 to 141: a pass of the loop up to the change of the food status.\<close>

definition monitor_frame ::
  "configuration \<Rightarrow> bool \<Rightarrow> locals \<Rightarrow> 'a tick \<Rightarrow> (exn + locals) \<times> 'a action list" where
  "monitor_frame configuration enable_camera_inference st t =
     (case take_frame configuration enable_camera_inference st t of
        Inl ex \<Rightarrow> (Inl ex, [])
      | Inr (st, img, displayed_image) \<Rightarrow> update_food_status configuration img st)"

text \<open>Lines 105 to 162: one pass of the loop of food\_monitor.py.\<close>

definition monitor_pass ::
  "configuration \<Rightarrow> bool \<Rightarrow> locals \<Rightarrow> 'a tick \<Rightarrow> control \<times> locals \<times> 'a action list" where
  "monitor_pass configuration enable_camera_inference st t =
     (case take_frame configuration enable_camera_inference st t of
        Inl ex \<Rightarrow> (Raised ex, st, [])
      | Inr (st1, img, displayed_image) \<Rightarrow>
          case update_food_status configuration img st1 of
            (Inl ex, made) \<Rightarrow> (Raised ex, st1, made)
          | (Inr st2, made) \<Rightarrow>
              case monitor_key configuration img (lame t) (now t) of
                (ctl, saved) \<Rightarrow> (ctl, st2, made @ [Imshow displayed_image] @ saved))"

text \<open>
  The loop \<open>while True\<close> on the passes the outside has input for. It stops at Escape and
  at an exception; \<open>None\<close> says that it is still running when the input ends.
\<close>

fun monitor_loop ::
  "configuration \<Rightarrow> bool \<Rightarrow> locals \<Rightarrow> 'a tick list \<Rightarrow> control option \<times> 'a action list" where
  "monitor_loop configuration enable_camera_inference st [] = (None, [])"
| "monitor_loop configuration enable_camera_inference st (t # ts) =
     (case monitor_pass configuration enable_camera_inference st t of
        (Continue, st', made) \<Rightarrow>
          (case monitor_loop configuration enable_camera_inference st' ts of
             (ending, later) \<Rightarrow> (ending, made @ later))
      | (ctl, st', made) \<Rightarrow> (Some ctl, made))"

text \<open>
  Lines 66 to 74 of food\_monitor.py: inference is used when the configuration asks for
  it and the \<open>try\<close> block that sets the camera up for it runs to its end; the bare
  \<open>except\<close> turns it off otherwise. \<open>setup_succeeds\<close> says whether the block runs to its
  end.
\<close>

definition enable_camera_inference :: "configuration \<Rightarrow> bool \<Rightarrow> bool" where
  "enable_camera_inference configuration setup_succeeds =
     (if CAMERA_INFERENCE configuration
      then (if setup_succeeds then True else False)
      else False)"

definition do_camera_stuff ::
  "configuration \<Rightarrow> bool \<Rightarrow> 'a tick list \<Rightarrow> control option \<times> 'a action list" where
  "do_camera_stuff configuration setup_succeeds ticks =
     monitor_loop configuration (enable_camera_inference configuration setup_succeeds)
       initial_locals ticks"

text \<open>
  The \<open>try\<close> block of food\_monitor.py as the repository has it. Line 70 calls
  \<open>camera.setup_inference_camera_defaults(OFFSETX=.., OFFSETY=.., WIDTH=.., HEIGHT=..)\<close>,
  and line 792 of Camera.py defines \<open>def setup_inference_camera_defaults(self)\<close>, with
  no parameter besides \<open>self\<close> (DataHandler.py calls it with no argument). A call binds
  each keyword to the parameter of that name and raises \<open>TypeError\<close> when there is none,
  before the body of the method runs.
\<close>

definition setup_inference_camera_defaults_parameters :: "string list" where
  "setup_inference_camera_defaults_parameters = []"

definition binds_keywords :: "string list \<Rightarrow> string list \<Rightarrow> bool" where
  "binds_keywords parameters keywords = list_all (\<lambda>k. k \<in> set parameters) keywords"

definition setup_call :: "bool \<Rightarrow> exn + unit" where
  "setup_call body_succeeds =
     (if \<not> binds_keywords setup_inference_camera_defaults_parameters
              [''OFFSETX'', ''OFFSETY'', ''WIDTH'', ''HEIGHT'']
      then Inl TypeError
      else if body_succeeds then Inr () else Inl SpinnakerException)"

definition setup_try_completes :: "bool \<Rightarrow> bool" where
  "setup_try_completes body_succeeds =
     (case setup_call body_succeeds of Inl ex \<Rightarrow> False | Inr _ \<Rightarrow> True)"

text \<open>
  \<open>do_camera_stuff\<close> of food\_monitor.py with the call of line 70 as it is written, on
  the frames the camera delivers; \<open>body_succeeds\<close> says whether the camera would accept
  what the body of the method sets.
\<close>

definition food_monitor_stream ::
  "configuration \<Rightarrow> bool \<Rightarrow> 'a tick list \<Rightarrow> control option \<times> 'a action list" where
  "food_monitor_stream configuration body_succeeds ticks =
     do_camera_stuff configuration (setup_try_completes body_succeeds) ticks"


section \<open>Traces and example cameras\<close>

text \<open>
  A trace is clean when no file operation in it reports a failure. A step keeps the
  upload in order when the trace it leaves is clean, up to the last call where it raises.
\<close>

definition clean :: "event list \<Rightarrow> bool" where
  "clean calls = (\<forall>e \<in> set calls. \<not> failed_operation e)"

definition step_ok :: "'a step \<Rightarrow> bool" where
  "step_ok r = (case r of Inl (ex, calls) \<Rightarrow> clean (butlast calls) | Inr (v, calls) \<Rightarrow> clean calls)"

text \<open>
  A camera that accepts everything, with a file of 3 bytes on it and a buffer of 4 bytes,
  and the same camera failing the second write.
\<close>

definition responsive_camera :: camera where
  "responsive_camera =
     \<lparr>node_mode = (\<lambda>node. RW), entry_mode = (\<lambda>node entry. RO),
      entry_value = (\<lambda>node entry. 7), node_max = (\<lambda>node. 1440),
      set_throws = (\<lambda>node v. False), init_throws = False, deinit_throws = False,
      file_size = 3, file_access_length = 2, file_access_buffer_length = 4,
      delete_response = Success, open_response = Success,
      write_response = (\<lambda>i. Success), file_operation_result = (\<lambda>i. 4),
      close_response = Success\<rparr>"

definition camera_failing_second_write :: camera where
  "camera_failing_second_write =
     responsive_camera\<lparr>write_response := (\<lambda>i. if i = 1 then Failure else Success)\<rparr>"

definition unavailable_camera :: camera where
  "unavailable_camera = responsive_camera\<lparr>node_mode := (\<lambda>node. NA)\<rparr>"

text \<open>
  The calls that set a value in a trace were all made on nodes that are available and
  writable.
\<close>

definition checked_sets :: "camera \<Rightarrow> event list \<Rightarrow> bool" where
  "checked_sets cam calls =
     (\<forall>e \<in> set calls. case e of
         SetIntValue node v \<Rightarrow> \<not> node_unusable cam node
       | SetValue node v \<Rightarrow> \<not> node_unusable cam node
       | _ \<Rightarrow> True)"

text \<open>
  The tuple of lines 974 to 979 for a box, as it is when no division raises.
\<close>

definition rectangle_entry :: "int \<Rightarrow> int \<Rightarrow> bounding_box \<Rightarrow> box_entry" where
  "rectangle_entry r c b =
     (classId b, confidence b,
      np_clip (real_of_int (topLeftXCoord (rect b)) / real_of_int c) 0 1,
      np_clip (real_of_int (topLeftYCoord (rect b)) / real_of_int r) 0 1,
      np_clip (real_of_int (bottomRightXCoord (rect b)) / real_of_int c) 0 1,
      np_clip (real_of_int (bottomRightYCoord (rect b)) / real_of_int r) 0 1)"

text \<open>Example inputs of the loops, of the injection and of the bounding boxes.\<close>

definition example_configuration :: configuration where
  "example_configuration =
     prepare_folders_and_options ''/''
       \<lparr>LABELS = [(''1'', ''empty''), (''2'', ''full'')], FOLDERS = [], EXTENSION = ''png'',
        ROOT_FOLDER = ''/data'', INFERENCE_LABELS = [(0, ''empty''), (1, ''full'')],
        CONFIDENCE = 1 / 2, DELAY_INTERVAL = 1, CAMERA_INFERENCE = True\<rparr>"

definition eager_configuration :: configuration where
  "eager_configuration = example_configuration\<lparr>DELAY_INTERVAL := 0\<rparr>"

definition example_tick :: "nat tick" where
  "example_tick = \<lparr>frame = 5, inference_info = (1, 9 / 10, 3), lame = 49, now = ''20240101_010101''\<rparr>"

definition example_image :: mono8_image where
  "example_image = \<lparr>shape0 = 1, shape1 = 2, samples = [1, 255]\<rparr>"

definition example_boxes :: spinnaker_image where
  "example_boxes =
     \<lparr>shape = [10, 20],
      boxes = [\<lparr>boxType = INFERENCE_BOX_TYPE_CIRCLE, classId = 0, confidence = 1,
                 rect = \<lparr>topLeftXCoord = 0, topLeftYCoord = 0,
                         bottomRightXCoord = 1, bottomRightYCoord = 1\<rparr>\<rparr>,
               \<lparr>boxType = INFERENCE_BOX_TYPE_RECTANGLE, classId = 1, confidence = 1 / 2,
                 rect = \<lparr>topLeftXCoord = - 3, topLeftYCoord = 5,
                         bottomRightXCoord = 30, bottomRightYCoord = 10\<rparr>\<rparr>]\<rparr>"

section \<open>The split of the uploaded file\<close>


lemma sections_positive_size: 
  assumes b: "0 < b"
  shows "0 # sections k b = map (\<lambda>i. int i * b) [0 ..< max 1 (nat k)]"
proof (cases "nat k")
  case 0 then show ?thesis by (simp add: sections_def)
next
  case (Suc m)
  have "[0 ..< Suc m] = 0 # [1 ..< Suc m]" by (simp add: upt_rec)
  moreover have "filter (\<lambda>num. num \<noteq> 0) (map (\<lambda>index. int index * b) [1 ..< Suc m]) = map (\<lambda>index. int index * b) [1 ..< Suc m]"
    using b by (auto simp: filter_id_conv)
  ultimately show ?thesis using Suc by (simp add: sections_def)
qed

lemma slice_bound_int: "slice_bound n (int i) = min i n"
  by (simp add: slice_bound_def)

lemma py_slice_nat: "py_slice xs (int s) (int e) = take (min e (length xs) - min s (length xs)) (drop (min s (length xs)) xs)"
  by (simp add: py_slice_def slice_bound_int Let_def)

lemma array_split_sections:
  assumes b: "0 < b"
  shows "array_split xs (sections k b) =
     map (\<lambda>i. py_slice xs (int i * b) (if Suc i < max 1 (nat k) then int (Suc i) * b else int (length xs)))
        [0 ..< max 1 (nat k)]"
proof -
  let ?m = "max 1 (nat k)"
  let ?dp = "map (\<lambda>i. int i * b) [0 ..< ?m] @ [int (length xs)]"
  have dp: "[0] @ sections k b @ [int (length xs)] = ?dp"
    using sections_positive_size[OF b, of k] by simp
  have len: "length (zip ?dp (tl ?dp)) = ?m" by simp
  have "zip ?dp (tl ?dp) = map (\<lambda>i. (int i * b, if Suc i < ?m then int (Suc i) * b else int (length xs))) [0 ..< ?m]"
  proof (rule nth_equalityI)
    show "length (zip ?dp (tl ?dp)) = length (map (\<lambda>i. (int i * b, if Suc i < ?m then int (Suc i) * b else int (length xs))) [0 ..< ?m])"
      by simp
  next
    fix i assume "i < length (zip ?dp (tl ?dp))"
    then have i: "i < ?m" by simp
    have a: "?dp ! i = int i * b" using i by (simp add: nth_append)
    have c: "tl ?dp ! i = (if Suc i < ?m then int (Suc i) * b else int (length xs))"
      using i by (auto simp: nth_tl nth_append)
    show "zip ?dp (tl ?dp) ! i = map (\<lambda>i. (int i * b, if Suc i < ?m then int (Suc i) * b else int (length xs))) [0 ..< ?m] ! i"
      using i a c by simp
  qed
  then show ?thesis
    unfolding array_split_def Let_def dp by (simp add: comp_def)
qed


lemma write_iterations_bounds:
  assumes b: "0 < b"
  shows "(write_iterations n b - 1) * b < n \<and> n \<le> write_iterations n b * b"
proof -
  define q r where "q = n div b" and "r = n mod b"
  have eq: "n = q * b + r" by (simp add: q_def r_def)
  have m: "0 \<le> r" "r < b" using b by (simp_all add: r_def)
  have w: "write_iterations n b = q + (if r = 0 then 0 else 1)"
    by (simp add: write_iterations_def q_def r_def)
  show ?thesis
  proof (cases "r = 0")
    case True
    then show ?thesis using w eq b by (simp add: algebra_simps)
  next
    case False
    then have "0 < r" using m by simp
    then show ?thesis using w eq m False by (simp add: algebra_simps)
  qed
qed

lemma split_data_chunks_eq:
  assumes b: "0 < b" 
  shows "split_data xs b =
     map (\<lambda>i. take (nat b) (drop (i * nat b) xs))
       [0 ..< max 1 (nat (write_iterations (int (length xs)) b))]"
proof -
  define bn where "bn = nat b"
  define n where "n = length xs"
  define k where "k = nat (write_iterations (int n) b)"
  have bb: "b = int bn" "0 < bn" using b by (simp_all add: bn_def)
  have wb: "(write_iterations (int n) b - 1) * b < int n" "int n \<le> write_iterations (int n) b * b"
    using write_iterations_bounds[OF b, of "int n"] by simp_all
  have w0: "0 \<le> write_iterations (int n) b"
  proof (rule ccontr)
    assume "\<not> 0 \<le> write_iterations (int n) b"
    then have "write_iterations (int n) b \<le> -1" by simp
    then have "write_iterations (int n) b * b \<le> -1 * b" using b by (intro mult_right_mono) simp_all
    then show False using wb(2) b by simp
  qed
  then have wk: "write_iterations (int n) b = int k" by (simp add: k_def)
  note wb' = wb[unfolded wk]
  have k1: "int k * int bn < int n + int bn" using wb'(1) unfolding bb(1) by (simp add: algebra_simps)
  then have "int (k * bn) < int (n + bn)" by simp
  then have k1n: "k * bn < n + bn" by (simp only: of_nat_less_iff)
  have "int n \<le> int k * int bn" using wb'(2) unfolding bb(1) by simp
  then have "int n \<le> int (k * bn)" by simp
  then have k2n: "n \<le> k * bn" by (simp only: of_nat_le_iff)
  have "array_split xs (sections (int k) b) =
     map (\<lambda>i. take bn (drop (i * bn) xs)) [0 ..< max 1 k]"
    unfolding array_split_sections[OF b]
  proof (simp only: nat_int, rule map_cong[OF refl])
    fix i assume "i \<in> set [0 ..< max 1 k]"
    then have i: "i < max 1 k" by simp
    show "py_slice xs (int i * b) (if Suc i < max 1 k then int (Suc i) * b else int (length xs))
        = take bn (drop (i * bn) xs)"
    proof (cases "Suc i < max 1 k")
      case True
      have e1: "int i * b = int (i * bn)" and e2: "int (Suc i) * b = int (Suc i * bn)"
        unfolding bb(1) by (simp_all add: algebra_simps)
      from True have "Suc (Suc i) \<le> k" by simp
      then have "Suc (Suc i) * bn \<le> k * bn" by (rule mult_le_mono1)
      then have "Suc i * bn + bn \<le> k * bn" by simp
      then have le: "Suc i * bn \<le> n" using k1n by simp
      then have le2: "i * bn \<le> n" by simp
      have "py_slice xs (int (i * bn)) (int (Suc i * bn)) = take bn (drop (i * bn) xs)"
        unfolding py_slice_nat using le le2 by (simp add: n_def min_def)
      then show ?thesis unfolding if_P[OF True] e1 e2 .
    next
      case False
      have e1: "int i * b = int (i * bn)" unfolding bb(1) by simp
      from False i have ik: "Suc i = max 1 k" by simp
      have le: "i * bn \<le> n"
      proof (cases "k = 0")
        case True then show ?thesis using ik by simp
      next
        case False
        then have "k = Suc i" using ik by simp
        then show ?thesis using k1n by simp
      qed
      have le2: "n - i * bn \<le> bn"
      proof (cases "k = 0")
        case True then show ?thesis using k2n by simp
      next
        case False
        then have "k = Suc i" using ik by simp
        then show ?thesis using k2n by simp
      qed
      have "py_slice xs (int (i * bn)) (int n) = take (n - i * bn) (drop (i * bn) xs)"
        unfolding py_slice_nat using le by (simp add: n_def min_def)
      also have "\<dots> = drop (i * bn) xs" by (simp add: n_def)
      also have "\<dots> = take bn (drop (i * bn) xs)" using le2 by (simp add: n_def)
      finally show ?thesis unfolding if_not_P[OF False] e1 n_def .
    qed
  qed
  then show ?thesis
    unfolding split_data_def bn_def wk[unfolded n_def] nat_int .
qed

lemma concat_chunks: "concat (map (\<lambda>i. take bn (drop (i * bn) xs)) [0 ..< m]) = take (m * bn) xs"
proof (induction m)
  case 0 show ?case by simp
next
  case (Suc m)
  have "take (m * bn) xs @ take bn (drop (m * bn) xs) = take (m * bn + bn) xs"
    by (simp add: take_add)
  then show ?case using Suc by (simp add: add.commute)
qed


lemma unat_shifted_sample: "unat (push_bit 2 (ucast (v::8 word) :: 16 word)) = 4 * unat v"
proof -
  have "unat v < 2 ^ LENGTH(8)" by (rule unsigned_less)
  then have v: "unat v < 256" by simp
  have u: "unat (ucast v :: 16 word) = unat v"
    using v by (simp add: unsigned_ucast_eq take_bit_eq_mod)
  have "unat (push_bit 2 (ucast v :: 16 word)) = take_bit LENGTH(16) (push_bit 2 (unat (ucast v :: 16 word)))"
    by (rule unsigned_push_bit_eq)
  also have "\<dots> = (4 * unat v) mod 65536"
    by (simp only: u push_bit_eq_mult take_bit_eq_mod) (simp add: mult.commute)
  also have "\<dots> = 4 * unat v" using v by simp
  finally show ?thesis .
qed

lemma unat_u8_le: "unat (v::8 word) \<le> 255"
proof -
  have "unat v < 2 ^ LENGTH(8)" by (rule unsigned_less)
  then show ?thesis by simp
qed

lemma write_iterations_ceiling:
  assumes b: "0 < b"
  shows "write_iterations n b = \<lceil>real_of_int n / real_of_int b\<rceil>"
proof -
  have "- (- n div b) = n div b + (if n mod b = 0 then 0 else 1)"
    using b by (simp add: zdiv_zminus1_eq_if)
  then show ?thesis by (simp add: write_iterations_def ceiling_divide_eq_div)
qed

text \<open>
  Claim C1, as the code has it. For a file of \<open>n\<close> bytes and a buffer size \<open>b > 0\<close>,
  \<open>split_data\<close> has \<open>max 1 (ceil (n / b))\<close> chunks, which is \<open>ceil (n / b)\<close> for every file
  that is not empty; every chunk but the last has length \<open>b\<close>, the last chunk has length
  \<open>n - b * (m - 1)\<close> where \<open>m\<close> is the number of chunks, and the chunks in order make up
  the file.
\<close>

theorem split_data_chunks:
  assumes b: "0 < b"
  shows "length (split_data xs b) = max 1 (nat \<lceil>real (length xs) / real_of_int b\<rceil>)
    \<and> (xs \<noteq> [] \<longrightarrow> int (length (split_data xs b)) = \<lceil>real (length xs) / real_of_int b\<rceil>)
    \<and> (\<forall>i. Suc i < length (split_data xs b) \<longrightarrow> int (length (split_data xs b ! i)) = b)
    \<and> int (length (last (split_data xs b))) =
          int (length xs) - b * (int (length (split_data xs b)) - 1)
    \<and> concat (split_data xs b) = xs"
proof -
  define bn where "bn = nat b"
  define n where "n = length xs"
  define w where "w = write_iterations (int n) b"
  define m where "m = max 1 (nat w)"
  have bb: "b = int bn" "0 < bn" using b by (simp_all add: bn_def)
  have sd: "split_data xs b = map (\<lambda>i. take bn (drop (i * bn) xs)) [0 ..< m]"
    unfolding m_def w_def n_def bn_def by (rule split_data_chunks_eq[OF b])
  have wc: "w = \<lceil>real n / real_of_int b\<rceil>"
    unfolding w_def using write_iterations_ceiling[OF b, of "int n"] by simp
  have wb: "(w - 1) * b < int n" "int n \<le> w * b"
    unfolding w_def using write_iterations_bounds[OF b, of "int n"] by simp_all
  have len: "length (split_data xs b) = m" by (simp add: sd)
  have w_pos: "0 < n \<Longrightarrow> 1 \<le> w"
  proof (rule ccontr)
    assume n: "0 < n" and "\<not> 1 \<le> w"
    then have "w \<le> 0" by simp
    then have "w * b \<le> 0 * b" using b by (intro mult_right_mono) simp_all
    then show False using wb(2) n by simp
  qed
  have w_zero: "n = 0 \<Longrightarrow> w = 0"
    by (simp add: w_def write_iterations_def)
  have mw: "0 < n \<Longrightarrow> int m = w" using w_pos by (simp add: m_def)
  have lo: "(int m - 1) * int bn \<le> int n"
  proof (cases "n = 0")
    case True then show ?thesis using w_zero by (simp add: m_def)
  next
    case False then show ?thesis using mw wb(1) bb by simp
  qed
  have hi: "int n \<le> int m * int bn"
  proof (cases "n = 0")
    case True then show ?thesis by simp
  next
    case False then show ?thesis using mw wb(2) bb by simp
  qed
  have m1: "1 \<le> m" by (simp add: m_def)
  have lo_n: "(m - 1) * bn \<le> n"
  proof -
    have "int ((m - 1) * bn) \<le> int n" using lo m1 by (simp add: of_nat_diff)
    then show ?thesis by (simp only: of_nat_le_iff)
  qed
  have hi_n: "n \<le> m * bn"
  proof -
    have "int n \<le> int (m * bn)" using hi by simp
    then show ?thesis by (simp only: of_nat_le_iff)
  qed
  have c1: "length (split_data xs b) = max 1 (nat \<lceil>real (length xs) / real_of_int b\<rceil>)"
    using len wc by (simp add: m_def n_def)
  have c2: "xs \<noteq> [] \<longrightarrow> int (length (split_data xs b)) = \<lceil>real (length xs) / real_of_int b\<rceil>"
    using len mw wc by (simp add: n_def)
  have c3: "\<forall>i. Suc i < length (split_data xs b) \<longrightarrow> int (length (split_data xs b ! i)) = b"
  proof (intro allI impI)
    fix i assume "Suc i < length (split_data xs b)"
    then have i: "Suc i < m" by (simp add: len)
    then have "Suc i \<le> m - 1" by simp
    then have "Suc i * bn \<le> (m - 1) * bn" by (rule mult_le_mono1)
    then have "i * bn + bn \<le> n" using lo_n by simp
    then have l: "length (take bn (drop (i * bn) xs)) = bn" by (simp add: n_def)
    have "split_data xs b ! i = take bn (drop (i * bn) xs)"
      unfolding sd using i by simp
    then show "int (length (split_data xs b ! i)) = b"
      using l by (simp only: bb(1))
  qed
  have "last (split_data xs b) = take bn (drop ((m - 1) * bn) xs)"
    using m1 by (simp add: sd last_map last_upt)
  then have "length (last (split_data xs b)) = min bn (n - (m - 1) * bn)"
    by (simp add: n_def)
  also have "\<dots> = n - (m - 1) * bn"
  proof -
    have "m * bn = (m - 1) * bn + bn" using m1 by (cases m) simp_all
    then show ?thesis using hi_n by simp
  qed
  finally have "int (length (last (split_data xs b))) = int n - int ((m - 1) * bn)"
    using lo_n by (simp add: of_nat_diff)
  then have c4: "int (length (last (split_data xs b))) =
          int (length xs) - b * (int (length (split_data xs b)) - 1)"
    unfolding len using m1 by (simp add: bb n_def of_nat_diff algebra_simps)
  have "concat (split_data xs b) = take (m * bn) xs"
    unfolding sd by (rule concat_chunks)
  then have c5: "concat (split_data xs b) = xs" using hi_n by (simp add: n_def)
  from c1 c2 c3 c4 c5 show ?thesis by blast
qed

theorem split_data_chunks_witness:
  "(0::int) < 4
   \<and> split_data [1, 2, 3, 4, 5, 6, 7, 8, 9 :: 8 word] 4 = [[1, 2, 3, 4], [5, 6, 7, 8], [9]]
   \<and> length (split_data [1, 2, 3, 4, 5, 6, 7, 8, 9 :: 8 word] 4) =
        max 1 (nat \<lceil>real (length [1, 2, 3, 4, 5, 6, 7, 8, 9 :: 8 word]) / real_of_int 4\<rceil>)
   \<and> concat (split_data [1, 2, 3, 4, 5, 6, 7, 8, 9 :: 8 word] 4) = [1, 2, 3, 4, 5, 6, 7, 8, 9]"
proof -
  have b: "(0::int) < 4" by simp
  have e: "split_data [1, 2, 3, 4, 5, 6, 7, 8, 9 :: 8 word] 4 = [[1, 2, 3, 4], [5, 6, 7, 8], [9]]"
    by (simp add: split_data_def write_iterations_def sections_def array_split_def
          py_slice_def slice_bound_def upt_rec)
  from split_data_chunks [OF b, of "[1, 2, 3, 4, 5, 6, 7, 8, 9 :: 8 word]"] b e
  show ?thesis by blast
qed

text \<open>
  Claim C1 as it is written fails for the empty file: \<open>array_split\<close> gives one (empty)
  chunk, and \<open>ceil (0 / 4)\<close> is zero.
\<close>

theorem split_data_empty_file:
  "int (length (split_data ([] :: 8 word list) 4)) \<noteq> \<lceil>real (length ([] :: 8 word list)) / real_of_int 4\<rceil>"
  by (simp add: split_data_def write_iterations_def sections_def array_split_def py_slice_def slice_bound_def)

section \<open>The 10-bit raster\<close>

text \<open>
  Claim C6. \<open>convert_raw_image_8bit_to_10bit\<close> returns \<open>True\<close> and writes one 16-bit word
  for each input sample; the word is the sample shifted left by two bits, its value is
  four times the sample, a multiple of 4 between 0 and 1020, below \<open>2 ^ 10\<close>.
\<close>

theorem convert_raw_image_8bit_to_10bit_raster:
  "fst (convert_raw_image_8bit_to_10bit img) = True
   \<and> length (snd (convert_raw_image_8bit_to_10bit img)) = length img
   \<and> (\<forall>i < length img.
         snd (convert_raw_image_8bit_to_10bit img) ! i = push_bit 2 (ucast (img ! i))
         \<and> unat (snd (convert_raw_image_8bit_to_10bit img) ! i) = 4 * unat (img ! i)
         \<and> 4 dvd unat (snd (convert_raw_image_8bit_to_10bit img) ! i)
         \<and> unat (snd (convert_raw_image_8bit_to_10bit img) ! i) \<le> 1020
         \<and> unat (snd (convert_raw_image_8bit_to_10bit img) ! i) < 2 ^ 10)"
proof -
  have s: "snd (convert_raw_image_8bit_to_10bit img) =
             map (\<lambda>v. push_bit 2 (ucast v :: 16 word)) img"
    by (simp add: convert_raw_image_8bit_to_10bit_def Let_def)
  have "\<And>v :: 8 word. unat (push_bit 2 (ucast v :: 16 word)) \<le> 1020"
    using unat_u8_le by (simp add: unat_shifted_sample)
  then show ?thesis
    by (simp add: s unat_shifted_sample convert_raw_image_8bit_to_10bit_def Let_def
          order.strict_trans1 [where b = 1020])
qed

theorem convert_raw_image_8bit_to_10bit_raster_witness:
  "(2::nat) < length [0, 1, 255 :: 8 word]
   \<and> unat (snd (convert_raw_image_8bit_to_10bit [0, 1, 255]) ! 2) = 4 * unat ([0, 1, 255 :: 8 word] ! 2)
   \<and> unat (snd (convert_raw_image_8bit_to_10bit [0, 1, 255]) ! 2) \<le> 1020"
proof -
  have i: "(2::nat) < length [0, 1, 255 :: 8 word]" by simp
  from convert_raw_image_8bit_to_10bit_raster [of "[0, 1, 255]"] i
  show ?thesis by blast
qed


section \<open>The write loop and the result of the upload\<close>

lemma clean_butlast: "clean calls \<Longrightarrow> clean (butlast calls)"
  by (auto simp: clean_def dest: in_set_butlastD)

lemma clean_snoc: "clean (calls @ [e]) = (clean calls \<and> \<not> failed_operation e)"
  by (auto simp: clean_def)

lemma clean_append: "clean (xs @ ys) = (clean xs \<and> clean ys)"
  by (auto simp: clean_def)

lemma clean_Cons: "clean (e # xs) = (\<not> failed_operation e \<and> clean xs)"
  by (auto simp: clean_def)

lemma clean_Nil: "clean []"
  by (simp add: clean_def)

lemmas clean_simps = clean_append clean_Cons clean_Nil butlast_append clean_butlast

lemma succeeded_iff: "succeeded r = (r = Success)"
  by (cases r) (simp_all add: succeeded_def)

lemma iterations_run_snoc:
  "iterations_run (calls @ [e]) = iterations_run calls + (case e of SetBuffer _ \<Rightarrow> 1 | _ \<Rightarrow> 0)"
  by (cases e) (simp_all add: iterations_run_def)

lemma select_file_ok: "clean calls \<Longrightarrow> step_ok (select_file cam sel calls)"
  by (simp add: select_file_def step_ok_def Let_def clean_simps failed_operation_def)

lemma delete_and_open_ok: "clean calls \<Longrightarrow> step_ok (delete_and_open cam calls)"
  by (simp add: delete_and_open_def step_ok_def Let_def clean_simps failed_operation_def
        execute_delete_command_def open_file_to_write_def succeeded_iff)

lemma set_access_length_ok: "clean calls \<Longrightarrow> step_ok (set_access_length cam calls)"
  by (simp add: set_access_length_def step_ok_def Let_def clean_simps failed_operation_def)

lemma close_upload_ok: "clean calls \<Longrightarrow> step_ok (close_upload cam calls)"
  by (simp add: close_upload_def step_ok_def Let_def clean_simps failed_operation_def
        close_file_def succeeded_iff)

lemma write_loop_ok:
  "clean calls \<Longrightarrow> step_ok (write_loop cam split b tot idxs (bl, tw, calls))"
proof (induction idxs arbitrary: bl tw calls)
  case Nil
  then show ?case by (simp add: step_ok_def)
next
  case (Cons i rest)
  show ?case
  proof (cases "i < length split")
    case False
    then show ?thesis using Cons.prems by (simp add: step_ok_def clean_butlast)
  next
    case True
    note i = this
    show ?thesis
    proof (cases "b > bl \<and> set_throws cam ''FileAccessLength'' bl")
      case True
      then show ?thesis using i Cons.prems
        by (simp add: step_ok_def Let_def clean_simps failed_operation_def)
    next
      case False
      note nt = this
      define calls2 where "calls2 = (if b > bl then calls @ [SetBuffer (split ! i)] @ [SetValue ''FileAccessLength'' bl]
                        else calls @ [SetBuffer (split ! i)])"
      have c2: "clean calls2" using Cons.prems by (simp add: calls2_def clean_def failed_operation_def)
      show ?thesis
      proof (cases "execute_write_command cam i")
        case False
        then show ?thesis using i nt c2
          by (auto simp: step_ok_def Let_def calls2_def butlast_append split: if_splits)
      next
        case True
        then have "clean (calls2 @ [FileOperation Write (write_response cam i)])"
          using c2 by (simp add: clean_snoc failed_operation_def execute_write_command_def succeeded_iff)
        from Cons.IH[OF this, of "tot - (tw + file_operation_result cam i)"
              "tw + file_operation_result cam i"]
        show ?thesis using i nt True
          by (auto simp: Let_def calls2_def split: if_splits)
      qed
    qed
  qed
qed

lemma write_file_ok: "clean calls \<Longrightarrow> step_ok (write_file cam file_data b calls)"
  by (simp add: write_file_def Let_def write_loop_ok) (simp add: step_ok_def clean_butlast)

lemma body_ok: "step_ok (file_access_upload_body cam sel file)"
proof -
  have c0: "clean []" by (simp add: clean_def)
  show ?thesis
  proof (cases "select_file cam sel []")
    case (Inl a)
    then show ?thesis using select_file_ok[OF c0, of cam sel]
      by (simp add: file_access_upload_body_def)
  next
    case (Inr p1)
    obtain u1 calls1 where p1: "p1 = (u1, calls1)" by (cases p1)
    have c1: "clean calls1" using select_file_ok[OF c0, of cam sel] Inr p1 by (simp add: step_ok_def)
    show ?thesis
    proof (cases "delete_and_open cam calls1")
      case (Inl a)
      then show ?thesis using delete_and_open_ok[OF c1, of cam] Inr p1
        by (simp add: file_access_upload_body_def)
    next
      case (Inr p2)
      note r2 = this
      obtain u2 calls2 where p2: "p2 = (u2, calls2)" by (cases p2)
      have c2: "clean calls2" using delete_and_open_ok[OF c1, of cam] Inr p2 by (simp add: step_ok_def)
      show ?thesis
      proof (cases "set_access_length cam calls2")
        case (Inl a)
        then show ?thesis using set_access_length_ok[OF c2, of cam] \<open>select_file cam sel [] = Inr p1\<close> p1 r2 p2
          by (simp add: file_access_upload_body_def step_ok_def split: prod.splits)
      next
        case (Inr p3)
        note r3 = this
        obtain b calls3 where p3: "p3 = (b, calls3)" by (cases p3)
        have c3: "clean calls3" using set_access_length_ok[OF c2, of cam] Inr p3 by (simp add: step_ok_def)
        show ?thesis
        proof (cases "file")
          case None
          then show ?thesis using \<open>select_file cam sel [] = Inr p1\<close> p1 r2 p2 r3 p3 c3
            by (simp add: file_access_upload_body_def step_ok_def clean_butlast)
        next
          case (Some file_data)
          show ?thesis
          proof (cases "write_file cam file_data b calls3")
            case (Inl a)
            then show ?thesis using write_file_ok[OF c3, of cam file_data b]
                \<open>select_file cam sel [] = Inr p1\<close> p1 r2 p2 r3 p3 Some
              by (simp add: file_access_upload_body_def step_ok_def split: prod.splits)
          next
            case (Inr p4)
            obtain u4 calls4 where p4: "p4 = (u4, calls4)" by (cases p4)
            have c4: "clean calls4" using write_file_ok[OF c3, of cam file_data b] Inr p4 by (simp add: step_ok_def)
            show ?thesis using close_upload_ok[OF c4, of cam]
                \<open>select_file cam sel [] = Inr p1\<close> p1 r2 p2 r3 p3 Some Inr p4
              by (simp add: file_access_upload_body_def)
          qed
        qed
      qed
    qed
  qed
qed


lemma calls_of_simps:
  "calls_of (Inl (ex, calls)) = calls" "calls_of (Inr (v, calls)) = calls"
  by (simp_all add: calls_of_def)

lemma write_loop_step:
  assumes "i < length split" "\<not> (b > bl \<and> set_throws cam ''FileAccessLength'' bl)"
    "execute_write_command cam i"
  shows "write_loop cam split b tot (i # rest) (bl, tw, calls) =
         write_loop cam split b tot rest
           (tot - (tw + file_operation_result cam i), tw + file_operation_result cam i,
            calls @ [SetBuffer (split ! i)]
              @ (if b > bl then [SetValue ''FileAccessLength'' bl] else [])
              @ [FileOperation Write (write_response cam i)])"
  using assms by (cases "b > bl") (simp_all add: Let_def)

lemma write_loop_stop:
  assumes "\<not> (i < length split \<and> \<not> (b > bl \<and> set_throws cam ''FileAccessLength'' bl)
             \<and> execute_write_command cam i)"
  shows "iterations_run (calls_of (write_loop cam split b tot (i # rest) (bl, tw, calls)))
           \<le> Suc (iterations_run calls)"
  using assms by (cases "b > bl") (auto simp: Let_def calls_of_simps iterations_run_def)

lemma iterations_run_step:
  "iterations_run (calls @ [SetBuffer buf]
      @ (if c then [SetValue ''FileAccessLength'' bl] else [])
      @ [FileOperation Write r]) = Suc (iterations_run calls)"
  by (simp add: iterations_run_def)

lemma write_loop_iterations_le:
  "iterations_run (calls_of (write_loop cam split b tot idxs (bl, tw, calls)))
     \<le> iterations_run calls + length idxs"
proof (induction idxs arbitrary: bl tw calls)
  case Nil
  show ?case by (simp add: calls_of_simps)
next
  case (Cons i rest)
  show ?case
  proof (cases "i < length split \<and> \<not> (b > bl \<and> set_throws cam ''FileAccessLength'' bl)
                 \<and> execute_write_command cam i")
    case True
    then have "write_loop cam split b tot (i # rest) (bl, tw, calls) =
         write_loop cam split b tot rest
           (tot - (tw + file_operation_result cam i), tw + file_operation_result cam i,
            calls @ [SetBuffer (split ! i)]
              @ (if b > bl then [SetValue ''FileAccessLength'' bl] else [])
              @ [FileOperation Write (write_response cam i)])"
      by (intro write_loop_step) simp_all
    then show ?thesis
      using Cons.IH[of "tot - (tw + file_operation_result cam i)" "tw + file_operation_result cam i"
          "calls @ [SetBuffer (split ! i)]
              @ (if b > bl then [SetValue ''FileAccessLength'' bl] else [])
              @ [FileOperation Write (write_response cam i)]"]
      by (simp only: iterations_run_step) (simp del: write_loop.simps)
  next
    case False
    have "iterations_run (calls_of (write_loop cam split b tot (i # rest) (bl, tw, calls)))
           \<le> Suc (iterations_run calls)"
      by (rule write_loop_stop[OF False])
    then show ?thesis by (simp del: write_loop.simps)
  qed
qed

lemma write_loop_iterations_eq:
  assumes "\<forall>i \<in> set idxs. i < length split \<and> write_response cam i = Success"
    and "\<forall>v. \<not> set_throws cam ''FileAccessLength'' v"
  shows "\<exists>r calls'. write_loop cam split b tot idxs (bl, tw, calls) = Inr (r, calls')
           \<and> iterations_run calls' = iterations_run calls + length idxs"
  using assms(1)
proof (induction idxs arbitrary: bl tw calls)
  case Nil
  show ?case by simp
next
  case (Cons i rest)
  have rest: "\<forall>i \<in> set rest. i < length split \<and> write_response cam i = Success"
    using Cons.prems by simp
  have "i < length split" "execute_write_command cam i"
    using Cons.prems by (simp_all add: execute_write_command_def succeeded_def)
  then have "write_loop cam split b tot (i # rest) (bl, tw, calls) =
         write_loop cam split b tot rest
           (tot - (tw + file_operation_result cam i), tw + file_operation_result cam i,
            calls @ [SetBuffer (split ! i)]
              @ (if b > bl then [SetValue ''FileAccessLength'' bl] else [])
              @ [FileOperation Write (write_response cam i)])"
    using assms(2) by (intro write_loop_step) simp_all
  then show ?case
    using Cons.IH[OF rest, of "tot - (tw + file_operation_result cam i)"
          "tw + file_operation_result cam i"
          "calls @ [SetBuffer (split ! i)]
              @ (if b > bl then [SetValue ''FileAccessLength'' bl] else [])
              @ [FileOperation Write (write_response cam i)]"]
    by (simp only: iterations_run_step) simp
qed


lemma split_data_length:
  assumes b: "0 < b"
  shows "length (split_data xs b) = max 1 (nat \<lceil>real (length xs) / real_of_int b\<rceil>)"
  using write_iterations_ceiling[OF b, of "int (length xs)"]
  by (simp add: split_data_chunks_eq[OF b])

lemma write_file_run:
  assumes b: "0 < b"
  shows "write_file cam file_data b calls =
           write_loop cam (split_data file_data b) b (int (length file_data))
             [0 ..< nat \<lceil>real (length file_data) / real_of_int b\<rceil>]
             (int (length file_data), 0, calls)"
  using b write_iterations_ceiling[OF b, of "int (length file_data)"]
  by (simp add: write_file_def Let_def)

lemma eval_split_9: "split_data [1, 2, 3, 4, 5, 6, 7, 8, 9 :: 8 word] 4 = [[1, 2, 3, 4], [5, 6, 7, 8], [9]]"
  by (simp add: split_data_def write_iterations_def sections_def array_split_def
          py_slice_def slice_bound_def upt_rec)

lemma eval_write_file_failing:
  "write_file camera_failing_second_write [1, 2, 3, 4, 5, 6, 7, 8, 9] 4 [] =
     Inl (FileAccessError,
          [SetBuffer [1, 2, 3, 4], FileOperation Write Success,
           SetBuffer [5, 6, 7, 8], FileOperation Write Failure])"
  by (simp add: write_file_def Let_def eval_split_9 write_iterations_def upt_rec
        camera_failing_second_write_def responsive_camera_def execute_write_command_def succeeded_def)

lemma write_loop_append:
  "write_loop cam split b tot (xs @ ys) (bl, tw, calls) =
     (case write_loop cam split b tot xs (bl, tw, calls) of
        Inl raised \<Rightarrow> Inl raised
      | Inr ((bl', tw'), calls') \<Rightarrow> write_loop cam split b tot ys (bl', tw', calls'))"
proof (induction xs arbitrary: bl tw calls)
  case Nil
  show ?case by simp
next
  case (Cons i xs)
  show ?case
  proof (cases "i < length split \<and> \<not> (b > bl \<and> set_throws cam ''FileAccessLength'' bl)
                 \<and> execute_write_command cam i")
    case True
    then have s: "\<And>rest. write_loop cam split b tot (i # rest) (bl, tw, calls) =
         write_loop cam split b tot rest
           (tot - (tw + file_operation_result cam i), tw + file_operation_result cam i,
            calls @ [SetBuffer (split ! i)]
              @ (if b > bl then [SetValue ''FileAccessLength'' bl] else [])
              @ [FileOperation Write (write_response cam i)])"
      by (intro write_loop_step) simp_all
    show ?thesis
      unfolding append_Cons s by (rule Cons.IH)
  next
    case False
    then show ?thesis by (cases "b > bl") (auto simp: Let_def)
  qed
qed

lemma write_loop_fails_at:
  assumes "j < length split" "write_response cam j \<noteq> Success"
    and "\<forall>v. \<not> set_throws cam ''FileAccessLength'' v"
  shows "\<exists>calls'. write_loop cam split b tot (j # rest) (bl, tw, calls) = Inl (FileAccessError, calls')
           \<and> iterations_run calls' = Suc (iterations_run calls)
           \<and> last calls' = FileOperation Write (write_response cam j)"
  using assms
  by (cases "b > bl")
     (simp_all add: Let_def execute_write_command_def succeeded_iff iterations_run_def)

lemma write_file_first_failure:
  assumes b: "0 < b"
    and j: "j < nat \<lceil>real (length file_data) / real_of_int b\<rceil>"
    and f: "write_response cam j \<noteq> Success"
    and ok: "\<forall>i < j. write_response cam i = Success"
    and nt: "\<forall>v. \<not> set_throws cam ''FileAccessLength'' v"
  shows "\<exists>calls. write_file cam file_data b [] = Inl (FileAccessError, calls)
           \<and> iterations_run calls = Suc j
           \<and> last calls = FileOperation Write (write_response cam j)"
proof -
  let ?k = "nat \<lceil>real (length file_data) / real_of_int b\<rceil>"
  let ?n = "int (length file_data)"
  let ?split = "split_data file_data b"
  have run: "write_file cam file_data b [] =
           write_loop cam ?split b ?n [0 ..< ?k] (?n, 0, [])"
    by (rule write_file_run[OF b])
  have len: "length ?split = max 1 ?k" by (rule split_data_length[OF b])
  have idx: "[0 ..< ?k] = [0 ..< j] @ (j # [Suc j ..< ?k])"
    using j by (metis le_add1 less_imp_le_nat plus_nat.add_0 upt_add_eq_append upt_conv_Cons
        le_add_diff_inverse)
  have pre: "\<forall>i \<in> set [0 ..< j]. i < length ?split \<and> write_response cam i = Success"
    using ok j len by simp
  from write_loop_iterations_eq[OF pre nt, of b ?n ?n 0 "[]"]
  obtain r calls' where
    w: "write_loop cam ?split b ?n [0 ..< j] (?n, 0, []) = Inr (r, calls')"
    and n: "iterations_run calls' = j"
    by (auto simp: iterations_run_def)
  obtain bl' tw' where r: "r = (bl', tw')" by (cases r)
  have jl: "j < length ?split" using j len by simp
  from write_loop_fails_at[OF jl f nt, of b ?n "[Suc j ..< ?k]" bl' tw' calls']
  obtain calls where
    "write_loop cam ?split b ?n (j # [Suc j ..< ?k]) (bl', tw', calls') = Inl (FileAccessError, calls)"
    "iterations_run calls = Suc (iterations_run calls')"
    "last calls = FileOperation Write (write_response cam j)"
    by blast
  then show ?thesis
    unfolding run idx write_loop_append w r using n by simp
qed

text \<open>
  Claim C2, as the code has it. For a file of \<open>n\<close> bytes and a buffer size \<open>b > 0\<close> the
  write loop enters its body at most \<open>ceil (n / b)\<close> times, on every camera; it is a
  recursion on the list \<open>range(write_iterations)\<close>, so it always ends. When every write
  reports success and the camera accepts the writes to \<open>FileAccessLength\<close>, the loop ends
  normally after exactly \<open>ceil (n / b)\<close> passes. When the write of pass \<open>j\<close> is the first
  that does not report success, the loop is left there with \<open>FileAccessError\<close>: exactly
  \<open>j + 1\<close> passes have run and the failed write is the last call made.
\<close>

theorem write_loop_bounded:
  assumes b: "0 < b"
  shows "iterations_run (calls_of (write_file cam file_data b []))
           \<le> nat \<lceil>real (length file_data) / real_of_int b\<rceil>
       \<and> ((\<forall>i < nat \<lceil>real (length file_data) / real_of_int b\<rceil>. write_response cam i = Success)
            \<and> (\<forall>v. \<not> set_throws cam ''FileAccessLength'' v)
          \<longrightarrow> (\<exists>r calls. write_file cam file_data b [] = Inr (r, calls)
                 \<and> iterations_run calls = nat \<lceil>real (length file_data) / real_of_int b\<rceil>))
       \<and> (\<forall>j < nat \<lceil>real (length file_data) / real_of_int b\<rceil>.
             write_response cam j \<noteq> Success
             \<and> (\<forall>i < j. write_response cam i = Success)
             \<and> (\<forall>v. \<not> set_throws cam ''FileAccessLength'' v)
           \<longrightarrow> (\<exists>calls. write_file cam file_data b [] = Inl (FileAccessError, calls)
                  \<and> iterations_run calls = Suc j
                  \<and> last calls = FileOperation Write (write_response cam j)))"
proof -
  let ?k = "nat \<lceil>real (length file_data) / real_of_int b\<rceil>"
  have run: "write_file cam file_data b [] =
           write_loop cam (split_data file_data b) b (int (length file_data)) [0 ..< ?k]
             (int (length file_data), 0, [])"
    by (rule write_file_run[OF b])
  have le: "iterations_run (calls_of (write_file cam file_data b [])) \<le> ?k"
    unfolding run
    using write_loop_iterations_le[of cam "split_data file_data b" b "int (length file_data)"
        "[0 ..< ?k]" "int (length file_data)" 0 "[]"]
    by (simp add: iterations_run_def)
  have len: "length (split_data file_data b) = max 1 ?k"
    by (rule split_data_length[OF b])
  have eq: "\<exists>r calls. write_file cam file_data b [] = Inr (r, calls) \<and> iterations_run calls = ?k"
    if ok: "\<forall>i < ?k. write_response cam i = Success"
      and nt: "\<forall>v. \<not> set_throws cam ''FileAccessLength'' v"
  proof -
    have "\<forall>i \<in> set [0 ..< ?k]. i < length (split_data file_data b) \<and> write_response cam i = Success"
      using ok len by simp
    from write_loop_iterations_eq[OF this nt, of b "int (length file_data)" "int (length file_data)" 0 "[]"]
    show ?thesis unfolding run by (simp add: iterations_run_def)
  qed
  have stop: "\<forall>j < ?k.
             write_response cam j \<noteq> Success
             \<and> (\<forall>i < j. write_response cam i = Success)
             \<and> (\<forall>v. \<not> set_throws cam ''FileAccessLength'' v)
           \<longrightarrow> (\<exists>calls. write_file cam file_data b [] = Inl (FileAccessError, calls)
                  \<and> iterations_run calls = Suc j
                  \<and> last calls = FileOperation Write (write_response cam j))"
    using write_file_first_failure[OF b] by blast
  from le eq stop show ?thesis by blast
qed

theorem write_loop_bounded_witness:
  "(0::int) < 4
   \<and> iterations_run (calls_of (write_file responsive_camera [1, 2, 3, 4, 5, 6, 7, 8, 9] 4 []))
       = nat \<lceil>real (length [1, 2, 3, 4, 5, 6, 7, 8, 9 :: 8 word]) / real_of_int 4\<rceil>
   \<and> (1::nat) < nat \<lceil>real (length [1, 2, 3, 4, 5, 6, 7, 8, 9 :: 8 word]) / real_of_int 4\<rceil>
   \<and> write_response camera_failing_second_write 1 \<noteq> Success
   \<and> iterations_run (calls_of (write_file camera_failing_second_write [1, 2, 3, 4, 5, 6, 7, 8, 9] 4 []))
       = Suc 1"
proof -
  have b: "(0::int) < 4" by simp
  have ok: "\<forall>i < nat \<lceil>real (length [1, 2, 3, 4, 5, 6, 7, 8, 9 :: 8 word]) / real_of_int 4\<rceil>.
              write_response responsive_camera i = Success"
    by (simp add: responsive_camera_def)
  have nt: "\<forall>v. \<not> set_throws responsive_camera ''FileAccessLength'' v"
    by (simp add: responsive_camera_def)
  from write_loop_bounded [OF b, of responsive_camera "[1, 2, 3, 4, 5, 6, 7, 8, 9]"] ok nt
  obtain r calls where
    "write_file responsive_camera [1, 2, 3, 4, 5, 6, 7, 8, 9] 4 [] = Inr (r, calls)"
    "iterations_run calls = nat \<lceil>real (length [1, 2, 3, 4, 5, 6, 7, 8, 9 :: 8 word]) / real_of_int 4\<rceil>"
    by blast
  then have first: "iterations_run (calls_of (write_file responsive_camera [1, 2, 3, 4, 5, 6, 7, 8, 9] 4 []))
       = nat \<lceil>real (length [1, 2, 3, 4, 5, 6, 7, 8, 9 :: 8 word]) / real_of_int 4\<rceil>"
    by (simp only: calls_of_simps)
  have j: "(1::nat) < nat \<lceil>real (length [1, 2, 3, 4, 5, 6, 7, 8, 9 :: 8 word]) / real_of_int 4\<rceil>"
    by simp
  have f: "write_response camera_failing_second_write 1 \<noteq> Success"
    by (simp add: camera_failing_second_write_def)
  have before: "\<forall>i < (1::nat). write_response camera_failing_second_write i = Success"
    by (simp add: camera_failing_second_write_def responsive_camera_def)
  have nt': "\<forall>v. \<not> set_throws camera_failing_second_write ''FileAccessLength'' v"
    by (simp add: camera_failing_second_write_def responsive_camera_def)
  from write_loop_bounded [OF b, of camera_failing_second_write "[1, 2, 3, 4, 5, 6, 7, 8, 9]"]
       j f before nt'
  obtain calls' where
    "write_file camera_failing_second_write [1, 2, 3, 4, 5, 6, 7, 8, 9] 4 [] = Inl (FileAccessError, calls')"
    "iterations_run calls' = Suc 1"
    by blast
  then have second: "iterations_run (calls_of (write_file camera_failing_second_write [1, 2, 3, 4, 5, 6, 7, 8, 9] 4 []))
       = Suc 1"
    by (simp only: calls_of_simps)
  from b first j f second show ?thesis by blast
qed

text \<open>
  Claim C2 as it is written fails when a write fails: with 9 bytes and a buffer of 4
  the second write fails, the loop is left in its second pass, and \<open>ceil (9 / 4)\<close> is 3.
\<close>

theorem write_loop_stops_at_failed_write:
  "iterations_run (calls_of (write_file camera_failing_second_write [1, 2, 3, 4, 5, 6, 7, 8, 9] 4 []))
     \<noteq> nat \<lceil>real (length [1, 2, 3, 4, 5, 6, 7, 8, 9 :: 8 word]) / real_of_int 4\<rceil>"
  by (simp add: eval_write_file_failing calls_of_def iterations_run_def)

lemma failed_last:
  assumes "clean (butlast calls)" "j < length calls" "failed_operation (calls ! j)"
  shows "Suc j = length calls"
proof (rule ccontr)
  assume "Suc j \<noteq> length calls"
  then have j: "j < length (butlast calls)" using assms(2) by simp
  then have "butlast calls ! j = calls ! j" by (simp add: nth_butlast)
  then have "calls ! j \<in> set (butlast calls)" using j by (metis nth_mem)
  then show False using assms(1,3) by (simp add: clean_def)
qed

lemma upload_cases:
  "(\<exists>ex calls. file_access_upload_body cam sel fl = Inl (ex, calls)
        \<and> file_access_upload cam sel fl = (Inr False, calls) \<and> clean (butlast calls))
   \<or> (\<exists>calls. file_access_upload_body cam sel fl = Inr ((), calls)
        \<and> file_access_upload cam sel fl = (Inr True, calls) \<and> clean calls)"
proof (cases "file_access_upload_body cam sel fl")
  case (Inl a)
  obtain ex calls where a: "a = (ex, calls)" by (cases a)
  have "clean (butlast calls)" using body_ok[of cam sel fl] Inl a by (simp add: step_ok_def)
  then show ?thesis using Inl a by (simp add: file_access_upload_def)
next
  case (Inr p)
  obtain u calls where p: "p = (u, calls)" by (cases p)
  have "clean calls" using body_ok[of cam sel fl] Inr p by (simp add: step_ok_def)
  then show ?thesis using Inr p by (simp add: file_access_upload_def)
qed

lemma body_success_responses:
  assumes "file_access_upload_body cam sel fl = Inr (u, calls)"
  shows "open_response cam = Success \<and> close_response cam = Success
         \<and> (file_size cam > 0 \<longrightarrow> delete_response cam = Success)"
  using assms
  by (auto simp: file_access_upload_body_def delete_and_open_def close_upload_def Let_def
        open_file_to_write_def close_file_def execute_delete_command_def succeeded_iff
      split: sum.splits prod.splits option.splits if_splits)

lemma eval_upload_failing:
  "file_access_upload camera_failing_second_write ''InjectedImage'' (Some [1, 2, 3, 4, 5, 6, 7, 8, 9]) =
     (Inr False,
      [SetIntValue ''FileSelector'' 7, FileOperation Delete Success, FileOperation Open Success,
       SetValue ''FileAccessLength'' 4, SetValue ''FileAccessOffset'' 0,
       SetBuffer [1, 2, 3, 4], FileOperation Write Success,
       SetBuffer [5, 6, 7, 8], FileOperation Write Failure])"
  by (simp add: file_access_upload_def file_access_upload_body_def select_file_def
        delete_and_open_def set_access_length_def close_upload_def
        write_file_def Let_def eval_split_9 write_iterations_def upt_rec
        IsAvailable_def IsWritable_def IsReadable_def
        execute_delete_command_def open_file_to_write_def close_file_def
        camera_failing_second_write_def responsive_camera_def execute_write_command_def succeeded_def)

lemma eval_upload_responsive:
  "file_access_upload responsive_camera ''InjectedImage'' (Some [1, 2, 3, 4, 5, 6, 7, 8, 9]) =
     (Inr True,
      [SetIntValue ''FileSelector'' 7, FileOperation Delete Success, FileOperation Open Success,
       SetValue ''FileAccessLength'' 4, SetValue ''FileAccessOffset'' 0,
       SetBuffer [1, 2, 3, 4], FileOperation Write Success,
       SetBuffer [5, 6, 7, 8], FileOperation Write Success,
       SetBuffer [9], SetValue ''FileAccessLength'' 1, FileOperation Write Success,
       FileOperation Close Success])"
  by (simp add: file_access_upload_def file_access_upload_body_def select_file_def
        delete_and_open_def set_access_length_def close_upload_def
        write_file_def Let_def eval_split_9 write_iterations_def upt_rec
        IsAvailable_def IsWritable_def IsReadable_def
        execute_delete_command_def open_file_to_write_def close_file_def
        responsive_camera_def execute_write_command_def succeeded_def)

text \<open>
  Claim C3. \<open>file_access_upload\<close> always returns a boolean to its caller. A file operation
  that reports a failure (another status, or an exception) is the last call made to the
  camera, so nothing is written or retried after it, and the result is \<open>False\<close>; the result
  is \<open>False\<close> whenever the body raises. The result is \<open>True\<close> only when the body ran to its
  end, every file operation made reported success, and the camera answered success to the
  opening, to the closing and, for a file that was not empty, to the deletion.
\<close>

theorem file_access_upload_result:
  "(\<exists>res. fst (file_access_upload cam sel fl) = Inr res)
   \<and> (\<forall>j < length (snd (file_access_upload cam sel fl)).
         failed_operation (snd (file_access_upload cam sel fl) ! j)
         \<longrightarrow> Suc j = length (snd (file_access_upload cam sel fl)))
   \<and> ((\<exists>e \<in> set (snd (file_access_upload cam sel fl)). failed_operation e)
        \<longrightarrow> fst (file_access_upload cam sel fl) = Inr False)
   \<and> ((\<exists>ex calls. file_access_upload_body cam sel fl = Inl (ex, calls))
        \<longrightarrow> fst (file_access_upload cam sel fl) = Inr False)
   \<and> (fst (file_access_upload cam sel fl) = Inr True
        \<longrightarrow> (\<forall>e \<in> set (snd (file_access_upload cam sel fl)). \<not> failed_operation e)
            \<and> file_access_upload_body cam sel fl = Inr ((), snd (file_access_upload cam sel fl))
            \<and> open_response cam = Success \<and> close_response cam = Success
            \<and> (file_size cam > 0 \<longrightarrow> delete_response cam = Success))"
proof -
  from upload_cases[of cam sel fl] show ?thesis
  proof (elim disjE exE conjE)
    fix ex calls
    assume b: "file_access_upload_body cam sel fl = Inl (ex, calls)"
      and u: "file_access_upload cam sel fl = (Inr False, calls)"
      and c: "clean (butlast calls)"
    have "\<forall>j < length calls. failed_operation (calls ! j) \<longrightarrow> Suc j = length calls"
      using failed_last[OF c] by blast
    moreover have "\<exists>res. fst (file_access_upload cam sel fl) = Inr res"
      unfolding u by (rule exI[of _ False]) simp
    ultimately show ?thesis using b u by simp
  next
    fix calls
    assume b: "file_access_upload_body cam sel fl = Inr ((), calls)"
      and u: "file_access_upload cam sel fl = (Inr True, calls)"
      and c: "clean calls"
    have n: "\<forall>e \<in> set calls. \<not> failed_operation e" using c by (simp add: clean_def)
    then have "\<forall>j < length calls. failed_operation (calls ! j) \<longrightarrow> Suc j = length calls"
      by (metis nth_mem)
    moreover have "\<exists>res. fst (file_access_upload cam sel fl) = Inr res"
      unfolding u by (rule exI[of _ True]) simp
    ultimately show ?thesis using b u n body_success_responses[OF b] by simp
  qed
qed

theorem file_access_upload_result_witness:
  "FileOperation Write Failure
     \<in> set (snd (file_access_upload camera_failing_second_write ''InjectedImage''
                  (Some [1, 2, 3, 4, 5, 6, 7, 8, 9])))
   \<and> failed_operation (FileOperation Write Failure)
   \<and> fst (file_access_upload camera_failing_second_write ''InjectedImage''
            (Some [1, 2, 3, 4, 5, 6, 7, 8, 9])) = Inr False
   \<and> fst (file_access_upload responsive_camera ''InjectedImage''
            (Some [1, 2, 3, 4, 5, 6, 7, 8, 9])) = Inr True
   \<and> open_response responsive_camera = Success
   \<and> close_response responsive_camera = Success"
proof -
  have m: "FileOperation Write Failure
     \<in> set (snd (file_access_upload camera_failing_second_write ''InjectedImage''
                  (Some [1, 2, 3, 4, 5, 6, 7, 8, 9])))"
    by (simp add: eval_upload_failing)
  have f: "failed_operation (FileOperation Write Failure)"
    by (simp add: failed_operation_def)
  have t: "fst (file_access_upload responsive_camera ''InjectedImage''
            (Some [1, 2, 3, 4, 5, 6, 7, 8, 9])) = Inr True"
    by (simp add: eval_upload_responsive)
  from file_access_upload_result
         [of camera_failing_second_write "''InjectedImage''" "Some [1, 2, 3, 4, 5, 6, 7, 8, 9]"]
       file_access_upload_result
         [of responsive_camera "''InjectedImage''" "Some [1, 2, 3, 4, 5, 6, 7, 8, 9]"]
       m f t
  show ?thesis by blast
qed


section \<open>The register-configuration routines and the injection\<close>

lemma eval_disable_unavailable:
  "disable_camera_image_injection unavailable_camera = (Inr (PyBool True), [Init, DeInit])"
  by (simp add: disable_camera_image_injection_def disable_body_def function_result_def
        finally_DeInit_return_True_def except_return_False_def camera_Init_def return_False_if_def
        node_unusable_def IsAvailable_def unavailable_camera_def responsive_camera_def)

lemma disable_always_True:
  "\<not> deinit_throws cam \<Longrightarrow> fst (disable_camera_image_injection cam) = Inr (PyBool True)"
  by (simp add: disable_camera_image_injection_def function_result_def
        finally_DeInit_return_True_def split: prod.splits)

lemma checked_sets_snoc:
  "checked_sets cam (calls @ [e]) = (checked_sets cam calls \<and>
      (case e of SetIntValue node v \<Rightarrow> \<not> node_unusable cam node
       | SetValue node v \<Rightarrow> \<not> node_unusable cam node | _ \<Rightarrow> True))"
  by (auto simp: checked_sets_def)

lemma configure_body_result:
  "fst (configure_body cam w h []) \<in> {Normal, Return (PyBool False), Raise SpinnakerException}"
  by (simp add: configure_body_def return_False_if_def set_int_value_def set_value_def end_of_block_def)

lemma configure_result:
  "fst (configure_camera_for_image_injection cam w h) \<in> {Inr PyNone, Inr (PyBool False)}"
  using configure_body_result[of cam w h]
  by (cases "configure_body cam w h []")
     (auto simp: configure_camera_for_image_injection_def except_return_False_def function_result_def)

lemma configure_checked:
  "checked_sets cam (snd (configure_body cam w h []))"
  by (simp add: configure_body_def return_False_if_def
      set_int_value_def set_value_def end_of_block_def checked_sets_def)

lemma disable_checked:
  "checked_sets cam (snd (disable_body cam []))"
  by (simp add: disable_body_def return_False_if_def camera_Init_def
      set_int_value_def set_value_def end_of_block_def checked_sets_def)


lemma return_False_if_Normal:
  "fst (return_False_if failed rest calls) = Normal \<longleftrightarrow> \<not> failed \<and> fst (rest calls) = Normal"
  by (simp add: return_False_if_def)

lemma set_int_value_Normal:
  "fst (set_int_value cam node v rest calls) = Normal
     \<longleftrightarrow> \<not> set_throws cam node v \<and> fst (rest (calls @ [SetIntValue node v])) = Normal"
  by (simp add: set_int_value_def)

lemma set_value_Normal:
  "fst (set_value cam node v rest calls) = Normal
     \<longleftrightarrow> \<not> set_throws cam node v \<and> fst (rest (calls @ [SetValue node v])) = Normal"
  by (simp add: set_value_def)

lemma end_of_block_Normal: "fst (end_of_block calls) = Normal"
  by (simp add: end_of_block_def)

lemma configure_body_Normal_iff:
  "fst (configure_body cam w h []) = Normal \<longleftrightarrow>
     \<not> node_unusable cam ''TestPatternGeneratorSelector''
     \<and> \<not> entry_unusable cam ''TestPatternGeneratorSelector'' ''PipelineStart''
     \<and> \<not> set_throws cam ''TestPatternGeneratorSelector''
            (entry_value cam ''TestPatternGeneratorSelector'' ''PipelineStart'')
     \<and> \<not> node_unusable cam ''TestPattern''
     \<and> \<not> entry_unusable cam ''TestPattern'' ''InjectedImage''
     \<and> \<not> set_throws cam ''TestPattern'' (entry_value cam ''TestPattern'' ''InjectedImage'')
     \<and> \<not> node_unusable cam ''InjectedWidth'' \<and> \<not> set_throws cam ''InjectedWidth'' w
     \<and> \<not> node_unusable cam ''Width'' \<and> \<not> set_throws cam ''Width'' w
     \<and> \<not> node_unusable cam ''InjectedHeight'' \<and> \<not> set_throws cam ''InjectedHeight'' h
     \<and> \<not> node_unusable cam ''Height'' \<and> \<not> set_throws cam ''Height'' h"
  unfolding configure_body_def
  by (simp only: return_False_if_Normal set_int_value_Normal set_value_Normal end_of_block_Normal
        simp_thms conj_assoc)

lemma configure_result_of_body:
  "fst (configure_camera_for_image_injection cam w h) =
     (if fst (configure_body cam w h []) = Normal then Inr PyNone
      else case fst (configure_body cam w h []) of
             Return v \<Rightarrow> Inr v | _ \<Rightarrow> Inr (PyBool False))"
  by (cases "configure_body cam w h []"; cases "fst (configure_body cam w h [])")
     (simp_all add: configure_camera_for_image_injection_def except_return_False_def function_result_def)

lemma inject_10bit_image_returns:
  "\<exists>res. fst (inject_10bit_image cam fl) = Inr res"
proof -
  from upload_cases[of cam "''InjectedImage''" fl]
  have "fst (file_access_upload cam ''InjectedImage'' fl) = Inr False
        \<or> fst (file_access_upload cam ''InjectedImage'' fl) = Inr True"
    by (elim disjE exE conjE) simp_all
  then show ?thesis unfolding inject_10bit_image_def by blast
qed

lemma inject_mono8_image_configure:
  "fst (inject_mono8_image cam img) =
     fst (configure_camera_for_image_injection cam (shape1 img) (shape0 img))"
proof -
  define raster where
    "raster = map (\<lambda>w. push_bit 2 w) (map (\<lambda>v. (ucast v :: 16 word)) (samples img))"
  have cv: "convert_raw_image_8bit_to_10bit (samples img) = (True, raster)"
    by (simp add: convert_raw_image_8bit_to_10bit_def Let_def raster_def)
  obtain res where "fst (inject_10bit_image cam (Some (tofile_bytes raster))) = Inr res"
    using inject_10bit_image_returns by blast
  then obtain calls where up: "inject_10bit_image cam (Some (tofile_bytes raster)) = (Inr res, calls)"
    by (cases "inject_10bit_image cam (Some (tofile_bytes raster))") simp
  obtain v calls' where cf: "configure_camera_for_image_injection cam (shape1 img) (shape0 img) = (v, calls')"
    by (cases "configure_camera_for_image_injection cam (shape1 img) (shape0 img)")
  show ?thesis
    unfolding inject_mono8_image_def cv by (simp add: up cf Let_def)
qed

lemma eval_inject_responsive:
  "fst (configure_body responsive_camera 2 1 []) = Normal"
  by (simp add: configure_body_def return_False_if_def
      set_int_value_def set_value_def end_of_block_def node_unusable_def entry_unusable_def
      IsAvailable_def IsWritable_def IsReadable_def responsive_camera_def)

text \<open>
  Claim C7 fails on \<open>disable_camera_image_injection\<close>. On a camera none of whose nodes
  is available the first check fails and the body returns \<open>False\<close>, but the \<open>return True\<close>
  of the \<open>finally\<close> clause replaces that value: the routine returns \<open>True\<close>, having set
  nothing.
\<close>

theorem disable_camera_image_injection_returns_True_on_failed_check:
  "node_mode unavailable_camera ''TestPatternGeneratorSelector'' = NA
   \<and> disable_camera_image_injection unavailable_camera = (Inr (PyBool True), [Init, DeInit])"
  by (simp add: eval_disable_unavailable) (simp add: unavailable_camera_def)

text \<open>
  Claim C8. \<open>inject_mono8_image\<close> never returns \<open>True\<close>: it returns what
  \<open>configure_camera_for_image_injection\<close> returns, which is \<open>None\<close> or \<open>False\<close>, and \<open>None\<close>
  exactly when the body of the configuration runs to its end, as it does when every
  node and entry passes its check and the camera accepts every write. Both values are
  falsy.
\<close>

theorem inject_mono8_image_never_True:
  "fst (inject_mono8_image cam img) \<noteq> Inr (PyBool True)
   \<and> fst (inject_mono8_image cam img) =
       fst (configure_camera_for_image_injection cam (shape1 img) (shape0 img))
   \<and> fst (configure_camera_for_image_injection cam w h) \<in> {Inr PyNone, Inr (PyBool False)}
   \<and> (fst (configure_camera_for_image_injection cam w h) = Inr PyNone
        \<longleftrightarrow> fst (configure_body cam w h []) = Normal)
   \<and> ((\<forall>node \<in> set [''TestPatternGeneratorSelector'', ''TestPattern'', ''InjectedWidth'',
              ''Width'', ''InjectedHeight'', ''Height'']. \<not> node_unusable cam node)
        \<and> \<not> entry_unusable cam ''TestPatternGeneratorSelector'' ''PipelineStart''
        \<and> \<not> entry_unusable cam ''TestPattern'' ''InjectedImage''
        \<and> (\<forall>node v. \<not> set_throws cam node v)
        \<longrightarrow> fst (inject_mono8_image cam img) = Inr PyNone)
   \<and> \<not> truthy PyNone \<and> \<not> truthy (PyBool False)"
proof -
  have a: "fst (inject_mono8_image cam img) =
       fst (configure_camera_for_image_injection cam (shape1 img) (shape0 img))"
    by (rule inject_mono8_image_configure)
  have b: "\<And>w h. fst (configure_camera_for_image_injection cam w h) \<in> {Inr PyNone, Inr (PyBool False)}"
    by (rule configure_result)
  have c: "fst (inject_mono8_image cam img) \<noteq> Inr (PyBool True)"
    using b[of "shape1 img" "shape0 img"] a by auto
  have d: "fst (configure_camera_for_image_injection cam w h) = Inr PyNone
        \<longleftrightarrow> fst (configure_body cam w h []) = Normal"
    using configure_body_result[of cam w h] by (auto simp: configure_result_of_body)
  have e: "(\<forall>node \<in> set [''TestPatternGeneratorSelector'', ''TestPattern'', ''InjectedWidth'',
              ''Width'', ''InjectedHeight'', ''Height'']. \<not> node_unusable cam node)
        \<and> \<not> entry_unusable cam ''TestPatternGeneratorSelector'' ''PipelineStart''
        \<and> \<not> entry_unusable cam ''TestPattern'' ''InjectedImage''
        \<and> (\<forall>node v. \<not> set_throws cam node v)
        \<longrightarrow> fst (inject_mono8_image cam img) = Inr PyNone"
    unfolding a configure_result_of_body configure_body_Normal_iff by simp
  have f: "\<not> truthy PyNone \<and> \<not> truthy (PyBool False)" by (simp add: truthy_def)
  from a b[of w h] c d e f show ?thesis by blast
qed

theorem inject_mono8_image_never_True_witness:
  "fst (configure_body responsive_camera 2 1 []) = Normal
   \<and> fst (configure_camera_for_image_injection responsive_camera 2 1) = Inr PyNone
   \<and> fst (inject_mono8_image responsive_camera example_image) = Inr PyNone"
proof -
  have n: "fst (configure_body responsive_camera 2 1 []) = Normal"
    by (rule eval_inject_responsive)
  have s: "shape1 example_image = 2" "shape0 example_image = 1"
    by (simp_all add: example_image_def)
  from inject_mono8_image_never_True [of responsive_camera example_image 2 1] n
  show ?thesis unfolding s by simp
qed

section \<open>The bounding boxes\<close>

lemma np_clip_unit: "0 \<le> np_clip a 0 1 \<and> np_clip a 0 1 \<le> 1"
  by (simp add: np_clip_def)

lemma box_entry_Inr:
  "box_entry r c b = Inr e \<Longrightarrow> e = rectangle_entry r c b"
  by (auto simp: box_entry_def true_divide_def rectangle_entry_def split: if_splits)

lemma box_entry_nonzero:
  "r \<noteq> 0 \<Longrightarrow> c \<noteq> 0 \<Longrightarrow> box_entry r c b = Inr (rectangle_entry r c b)"
  by (simp add: box_entry_def true_divide_def rectangle_entry_def)

lemma collect_boxes_Inr:
  "collect_boxes r c bs acc = Inr res \<Longrightarrow>
     res = acc @ map (rectangle_entry r c)
                   (filter (\<lambda>b. boxType b = INFERENCE_BOX_TYPE_RECTANGLE) bs)"
proof (induction bs arbitrary: acc)
  case Nil
  then show ?case by simp
next
  case (Cons b bs)
  show ?case
  proof (cases "boxType b = INFERENCE_BOX_TYPE_RECTANGLE")
    case False
    then show ?thesis using Cons by simp
  next
    case True
    show ?thesis
    proof (cases "box_entry r c b")
      case (Inl ex)
      then show ?thesis using Cons.prems True by simp
    next
      case (Inr e)
      then have "collect_boxes r c bs (acc @ [e]) = Inr res" using Cons.prems True by simp
      from Cons.IH[OF this] box_entry_Inr[OF Inr] True show ?thesis by simp
    qed
  qed
qed

lemma collect_boxes_nonzero:
  "r \<noteq> 0 \<Longrightarrow> c \<noteq> 0 \<Longrightarrow>
   collect_boxes r c bs acc =
     Inr (acc @ map (rectangle_entry r c)
                   (filter (\<lambda>b. boxType b = INFERENCE_BOX_TYPE_RECTANGLE) bs))"
  by (induction bs arbitrary: acc) (simp_all add: box_entry_nonzero)

text \<open>
  Claim C10. Every tuple in a list that \<open>get_bounding_box_results_from_image\<close> returns
  comes from a box of the image whose type is the rectangle, and its four coordinates
  are the quotients by the column and row counts clipped into the interval from 0 to 1.
  The function returns such a list whenever the image has two dimensions, neither of
  them zero.
\<close>

theorem bounding_box_results_rectangles:
  "(get_bounding_box_results_from_image im = Inr result \<and> t \<in> set result \<longrightarrow>
      (\<exists>r c b x1 y1 x2 y2.
         shape im = [r, c] \<and> b \<in> set (boxes im)
         \<and> boxType b = INFERENCE_BOX_TYPE_RECTANGLE
         \<and> t = (classId b, confidence b, x1, y1, x2, y2)
         \<and> x1 = np_clip (real_of_int (topLeftXCoord (rect b)) / real_of_int c) 0 1
         \<and> y1 = np_clip (real_of_int (topLeftYCoord (rect b)) / real_of_int r) 0 1
         \<and> x2 = np_clip (real_of_int (bottomRightXCoord (rect b)) / real_of_int c) 0 1
         \<and> y2 = np_clip (real_of_int (bottomRightYCoord (rect b)) / real_of_int r) 0 1
         \<and> 0 \<le> x1 \<and> x1 \<le> 1 \<and> 0 \<le> y1 \<and> y1 \<le> 1
         \<and> 0 \<le> x2 \<and> x2 \<le> 1 \<and> 0 \<le> y2 \<and> y2 \<le> 1))
   \<and> (shape im = [r', c'] \<and> r' \<noteq> 0 \<and> c' \<noteq> 0 \<longrightarrow>
        get_bounding_box_results_from_image im =
          Inr (map (rectangle_entry r' c')
                 (filter (\<lambda>b. boxType b = INFERENCE_BOX_TYPE_RECTANGLE) (boxes im))))"
proof (intro conjI impI)
  assume a: "get_bounding_box_results_from_image im = Inr result \<and> t \<in> set result"
  then obtain r c where sh: "shape im = [r, c]"
    and cb: "collect_boxes r c (boxes im) [] = Inr result"
    by (auto simp: get_bounding_box_results_from_image_def split: list.splits)
  from collect_boxes_Inr[OF cb] a
  obtain b where b: "b \<in> set (boxes im)" "boxType b = INFERENCE_BOX_TYPE_RECTANGLE"
    "t = rectangle_entry r c b" by auto
  show "\<exists>r c b x1 y1 x2 y2.
         shape im = [r, c] \<and> b \<in> set (boxes im)
         \<and> boxType b = INFERENCE_BOX_TYPE_RECTANGLE
         \<and> t = (classId b, confidence b, x1, y1, x2, y2)
         \<and> x1 = np_clip (real_of_int (topLeftXCoord (rect b)) / real_of_int c) 0 1
         \<and> y1 = np_clip (real_of_int (topLeftYCoord (rect b)) / real_of_int r) 0 1
         \<and> x2 = np_clip (real_of_int (bottomRightXCoord (rect b)) / real_of_int c) 0 1
         \<and> y2 = np_clip (real_of_int (bottomRightYCoord (rect b)) / real_of_int r) 0 1
         \<and> 0 \<le> x1 \<and> x1 \<le> 1 \<and> 0 \<le> y1 \<and> y1 \<le> 1
         \<and> 0 \<le> x2 \<and> x2 \<le> 1 \<and> 0 \<le> y2 \<and> y2 \<le> 1"
    using sh b np_clip_unit unfolding rectangle_entry_def by blast
next
  assume "shape im = [r', c'] \<and> r' \<noteq> 0 \<and> c' \<noteq> 0"
  then show "get_bounding_box_results_from_image im =
          Inr (map (rectangle_entry r' c')
                 (filter (\<lambda>b. boxType b = INFERENCE_BOX_TYPE_RECTANGLE) (boxes im)))"
    by (simp add: get_bounding_box_results_from_image_def collect_boxes_nonzero)
qed

theorem bounding_box_results_rectangles_witness:
  "shape example_boxes = [10, 20] \<and> (10::int) \<noteq> 0 \<and> (20::int) \<noteq> 0
   \<and> get_bounding_box_results_from_image example_boxes = Inr [(1, 1 / 2, 0, 1 / 2, 1, 1)]"
proof -
  have h: "shape example_boxes = [10, 20] \<and> (10::int) \<noteq> 0 \<and> (20::int) \<noteq> 0"
    by (simp add: example_boxes_def)
  from bounding_box_results_rectangles [of example_boxes _ _ 10 20] h
  have "get_bounding_box_results_from_image example_boxes =
          Inr (map (rectangle_entry 10 20)
                 (filter (\<lambda>b. boxType b = INFERENCE_BOX_TYPE_RECTANGLE) (boxes example_boxes)))"
    by blast
  then show ?thesis using h
    by (simp add: example_boxes_def rectangle_entry_def np_clip_def)
qed

section \<open>The display loops\<close>

lemma update_food_status_Inr:
  assumes "cls st = Some c" "conf st = Some f"
    and lab: "map_of (INFERENCE_LABELS cfg) c = Some label"
  shows "\<exists>st2 made. update_food_status cfg img st = (Inr st2, made)"
  using assms by (simp add: update_food_status_def differs_and_confident_def counter_exceeds_delay_def module_global_config_def Let_def)

lemma save_for_labels_paths:
  "e \<in> set (snd (save_for_labels cfg img key stamp keys acc)) \<Longrightarrow>
     e \<in> set acc
     \<or> (\<exists>a folder. map_of (FOLDERS cfg) a = Some folder
           \<and> e = Imwrite (folder @ ''/'' @ stamp @ ''.'' @ EXTENSION cfg) img)"
proof (induction keys arbitrary: acc)
  case Nil
  then show ?case by simp
next
  case (Cons a keys)
  show ?case
  proof (cases "py_ord a")
    case (Inl ex)
    then show ?thesis using Cons.prems by simp
  next
    case (Inr code)
    show ?thesis
    proof (cases "key = code")
      case False
      then show ?thesis using Inr Cons.prems Cons.IH[of acc] by simp
    next
      case True
      show ?thesis
      proof (cases "map_of (FOLDERS cfg) a")
        case None
        then show ?thesis using Inr True Cons.prems by (simp add: Let_def)
      next
        case (Some folder)
        let ?acc = "acc @ [Imwrite (folder @ ''/'' @ (stamp @ ''.'' @ EXTENSION cfg)) img]"
        have "e \<in> set (snd (save_for_labels cfg img key stamp keys ?acc))"
          using Inr True Some Cons.prems by (simp add: Let_def)
        from Cons.IH[OF this] show ?thesis using Some by auto
      qed
    qed
  qed
qed

lemma prepared_folder_form:
  assumes "map_of (FOLDERS (prepare_folders_and_options dirsep cfg)) a = Some folder"
  shows "\<exists>name. folder = ROOT_FOLDER cfg @ dirsep @ name"
proof -
  from map_of_SomeD[OF assms]
  have "(a, folder) \<in> set (map (\<lambda>(each, name). (each, ROOT_FOLDER cfg @ dirsep @ name)) (LABELS cfg))"
    by (simp add: prepare_folders_and_options_def)
  then show ?thesis by auto
qed

lemma label_path_not_food_status:
  "(base @ ''/'' @ name) @ ''/'' @ rest \<noteq> base @ ''/food_status.png''"
proof
  assume "(base @ ''/'' @ name) @ ''/'' @ rest = base @ ''/food_status.png''"
  then have "name @ ''/'' @ rest = ''food_status.png''" by simp
  then have "CHR ''/'' \<in> set ''food_status.png''"
    by (metis in_set_conv_decomp append_Cons)
  then show False by simp
qed

lemma monitor_key_paths:
  assumes "e \<in> set (snd (monitor_key (prepare_folders_and_options ''/'' cfg) img key stamp))"
  shows "\<forall>p. e \<noteq> Imwrite (ROOT_FOLDER cfg @ ''/food_status.png'') p"
proof -
  let ?cfg = "prepare_folders_and_options ''/'' cfg"
  from assms have "e \<in> set (snd (save_for_labels ?cfg img key stamp (map fst (LABELS ?cfg)) []))"
    by (auto simp: monitor_key_def split: if_splits)
  from save_for_labels_paths[OF this] obtain a folder where
    f: "map_of (FOLDERS ?cfg) a = Some folder"
    and e: "e = Imwrite (folder @ ''/'' @ stamp @ ''.'' @ EXTENSION ?cfg) img" by auto
  from prepared_folder_form[OF f] obtain name where "folder = ROOT_FOLDER cfg @ ''/'' @ name"
    by blast
  then show ?thesis using e label_path_not_food_status[of "ROOT_FOLDER cfg" name] by auto
qed


lemma prepared_fields:
  "INFERENCE_LABELS (prepare_folders_and_options d cfg) = INFERENCE_LABELS cfg"
  "CONFIDENCE (prepare_folders_and_options d cfg) = CONFIDENCE cfg"
  "DELAY_INTERVAL (prepare_folders_and_options d cfg) = DELAY_INTERVAL cfg"
  "ROOT_FOLDER (prepare_folders_and_options d cfg) = ROOT_FOLDER cfg"
  by (simp_all add: prepare_folders_and_options_def)

lemma monitor_pass_actions:
  assumes info: "inference_info t = (c, f, time)"
    and lab: "map_of (INFERENCE_LABELS cfg) c = Some label"
  shows "snd (snd (monitor_pass cfg True st t)) =
           snd (monitor_frame cfg True st t)
           @ [Imshow (PutText (Resized (Captured (frame t))) label)]
           @ snd (monitor_key cfg (Captured (frame t)) (lame t) (now t))"
proof -
  let ?st1 = "st\<lparr>cls := Some c, conf := Some f\<rparr>"
  have tf: "take_frame cfg True st t =
              Inr (?st1, Captured (frame t), PutText (Resized (Captured (frame t))) label)"
    using info lab by (simp add: take_frame_def Let_def)
  have c1: "cls ?st1 = Some c" and c2: "conf ?st1 = Some f" by simp_all
  from update_food_status_Inr[OF c1 c2 lab, of "Captured (frame t)"]
  obtain st2 made where u: "update_food_status cfg (Captured (frame t)) ?st1 = (Inr st2, made)"
    by blast
  obtain ctl saved where k: "monitor_key cfg (Captured (frame t)) (lame t) (now t) = (ctl, saved)"
    by (cases "monitor_key cfg (Captured (frame t)) (lame t) (now t)")
  show ?thesis
    by (simp add: monitor_pass_def monitor_frame_def tf u k)
qed

lemma monitor_frame_eq:
  assumes info: "inference_info t = (c, f, time)"
    and lab: "map_of (INFERENCE_LABELS cfg) c = Some label"
  shows "\<exists>st'. monitor_frame cfg True st t =
            (Inr st',
             if c \<noteq> previous_food_status st \<and> f > CONFIDENCE cfg
                \<and> counter st + 1 > DELAY_INTERVAL cfg
             then [Imwrite (ROOT_FOLDER cfg @ ''/food_status.png'') (Captured (frame t))]
             else [])
          \<and> (c \<noteq> previous_food_status st \<and> f > CONFIDENCE cfg
                \<and> counter st + 1 > DELAY_INTERVAL cfg
              \<longrightarrow> previous_food_status st' = c \<and> counter st' = 0)
          \<and> (\<not> (c \<noteq> previous_food_status st \<and> f > CONFIDENCE cfg
                   \<and> counter st + 1 > DELAY_INTERVAL cfg)
              \<longrightarrow> previous_food_status st' = previous_food_status st
                  \<and> counter st' =
                      (if c \<noteq> previous_food_status st \<and> f > CONFIDENCE cfg
                       then counter st + 1 else counter st))"
  using info lab
  by (simp add: monitor_frame_def take_frame_def update_food_status_def
        differs_and_confident_def counter_exceeds_delay_def module_global_config_def Let_def)

text \<open>
  With inference enabled and a label for the class of the frame, a pass of the loop of
  food\_monitor.py would write \<open>food_status.png\<close> under the root folder exactly when the
  class differs from the previous food status, the confidence exceeds the threshold and
  the count, which this frame has just raised, exceeds the delay interval, and would
  then take the class as the food status and set the counter to 0. This is what lines
  129 to 141 are written to do.
\<close>

lemma monitor_pass_saves_iff:
  assumes info: "inference_info t = (c, f, time)"
    and lab: "map_of (INFERENCE_LABELS cfg) c = Some label"
  shows "(\<exists>st'. monitor_frame cfg True st t =
            (Inr st',
             if c \<noteq> previous_food_status st \<and> f > CONFIDENCE cfg
                \<and> counter st + 1 > DELAY_INTERVAL cfg
             then [Imwrite (ROOT_FOLDER cfg @ ''/food_status.png'') (Captured (frame t))]
             else [])
          \<and> (c \<noteq> previous_food_status st \<and> f > CONFIDENCE cfg
                \<and> counter st + 1 > DELAY_INTERVAL cfg
              \<longrightarrow> previous_food_status st' = c \<and> counter st' = 0)
          \<and> (\<not> (c \<noteq> previous_food_status st \<and> f > CONFIDENCE cfg
                   \<and> counter st + 1 > DELAY_INTERVAL cfg)
              \<longrightarrow> previous_food_status st' = previous_food_status st
                  \<and> counter st' =
                      (if c \<noteq> previous_food_status st \<and> f > CONFIDENCE cfg
                       then counter st + 1 else counter st)))
     \<and> ((\<exists>p. Imwrite (ROOT_FOLDER cfg @ ''/food_status.png'') p
                 \<in> set (snd (monitor_frame cfg True st t)))
          \<longleftrightarrow> c \<noteq> previous_food_status st \<and> f > CONFIDENCE cfg
              \<and> counter st + 1 > DELAY_INTERVAL cfg)
     \<and> ((\<exists>p. Imwrite (ROOT_FOLDER cfg @ ''/food_status.png'') p
                 \<in> set (snd (snd (monitor_pass (prepare_folders_and_options ''/'' cfg) True st t))))
          \<longleftrightarrow> c \<noteq> previous_food_status st \<and> f > CONFIDENCE cfg
              \<and> counter st + 1 > DELAY_INTERVAL cfg)"
proof -
  let ?cond = "c \<noteq> previous_food_status st \<and> f > CONFIDENCE cfg
              \<and> counter st + 1 > DELAY_INTERVAL cfg"
  let ?food = "ROOT_FOLDER cfg @ ''/food_status.png''"
  let ?cfg = "prepare_folders_and_options ''/'' cfg"
  note a = monitor_frame_eq[OF info lab, of st]
  from a obtain st' where
    mf: "monitor_frame cfg True st t =
           (Inr st', if ?cond then [Imwrite ?food (Captured (frame t))] else [])"
    by blast
  have b: "(\<exists>p. Imwrite ?food p \<in> set (snd (monitor_frame cfg True st t))) \<longleftrightarrow> ?cond"
    unfolding mf by auto
  have lab': "map_of (INFERENCE_LABELS ?cfg) c = Some label"
    using lab by (simp add: prepared_fields)
  from monitor_frame_eq[OF info lab', of st] obtain st'' where
    mf': "monitor_frame ?cfg True st t =
           (Inr st'', if ?cond then [Imwrite ?food (Captured (frame t))] else [])"
    unfolding prepared_fields by blast
  have keys: "\<forall>e \<in> set (snd (monitor_key ?cfg (Captured (frame t)) (lame t) (now t))).
                \<forall>p. e \<noteq> Imwrite ?food p"
    using monitor_key_paths by blast
  have c: "(\<exists>p. Imwrite ?food p \<in> set (snd (snd (monitor_pass ?cfg True st t)))) \<longleftrightarrow> ?cond"
    unfolding monitor_pass_actions[OF info lab'] mf' using keys by auto
  from a b c show ?thesis by blast
qed

lemma setup_try_never_completes: "setup_try_completes body_succeeds = False"
  by (simp add: setup_try_completes_def setup_call_def binds_keywords_def
        setup_inference_camera_defaults_parameters_def)

lemma monitor_pass_unbound:
  "monitor_pass cfg False initial_locals t = (Raised NameError, initial_locals, [])"
  by (simp add: monitor_pass_def take_frame_def update_food_status_def
        differs_and_confident_def initial_locals_def Let_def)

lemma food_monitor_stream_dies:
  "food_monitor_stream cfg body_succeeds (t # ts) = (Some (Raised NameError), [])"
  by (simp add: food_monitor_stream_def do_camera_stuff_def setup_try_never_completes
        enable_camera_inference_def monitor_pass_unbound)

lemma food_monitor_stream_nothing:
  "snd (food_monitor_stream cfg body_succeeds ticks) = []"
proof (cases ticks)
  case Nil
  then show ?thesis by (simp add: food_monitor_stream_def do_camera_stuff_def)
next
  case (Cons t ts)
  then show ?thesis by (simp add: food_monitor_stream_dies)
qed

text \<open>
  Claim C4 fails on the code. The call of line 70 raises \<open>TypeError\<close>, the bare \<open>except\<close>
  turns inference off, and the first pass of the loop reads \<open>cls\<close> before any assignment:
  a run of food\_monitor.py ends there and never writes \<open>food_status.png\<close>. Here the
  configuration asks for inference, the first frame has class 1, which differs from the
  initial food status 10, with confidence 0.9 above the threshold 0.5, and the count 1
  exceeds the delay 0, so the claim has the first frame saved; the run raises
  \<open>NameError\<close> with nothing written.
\<close>

theorem food_monitor_never_saves_food_status:
  "CAMERA_INFERENCE eager_configuration = True
   \<and> inference_info example_tick = (1, 9 / 10, 3)
   \<and> (1::int) \<noteq> previous_food_status initial_locals
   \<and> (9 / 10 :: real) > CONFIDENCE eager_configuration
   \<and> counter initial_locals + 1 > DELAY_INTERVAL eager_configuration
   \<and> map_of (INFERENCE_LABELS eager_configuration) 1 = Some ''full''
   \<and> food_monitor_stream eager_configuration True [example_tick, example_tick]
       = (Some (Raised NameError), [])"
  by (simp add: food_monitor_stream_dies)
     (simp add: eager_configuration_def example_configuration_def prepare_folders_and_options_def
        example_tick_def initial_locals_def)

lemma py_ord_Inl: "py_ord a = Inl ex \<Longrightarrow> ex = TypeError"
  by (auto simp: py_ord_def split: list.splits)

lemma save_for_labels_control:
  "fst (save_for_labels cfg img key stamp keys acc) \<in> {Continue, Raised TypeError, Raised KeyError}"
proof (induction keys arbitrary: acc)
  case Nil
  show ?case by simp
next
  case (Cons a keys)
  show ?case
  proof (cases "py_ord a")
    case (Inl ex)
    then show ?thesis using py_ord_Inl[OF Inl] by simp
  next
    case (Inr code)
    show ?thesis
    proof (cases "key = code")
      case False
      then show ?thesis using Inr Cons.IH[of acc] by simp
    next
      case True
      show ?thesis
      proof (cases "map_of (FOLDERS cfg) a")
        case None
        then show ?thesis using Inr True by (simp add: Let_def)
      next
        case (Some folder)
        then show ?thesis
          using Inr True
            Cons.IH[of "acc @ [Imwrite (folder @ ''/'' @ (stamp @ ''.'' @ EXTENSION cfg)) img]"]
          by (simp add: Let_def)
      qed
    qed
  qed
qed

text \<open>
  Claim C9. When inference is disabled in the configuration, or its setup fails, the
  first pass of the loop raises \<open>NameError\<close> and nothing has been written or shown. With
  inference enabled a pass never raises \<open>NameError\<close>.
\<close>

theorem monitor_loop_without_inference:
  "(\<not> (CAMERA_INFERENCE cfg \<and> setup_succeeds)
      \<longrightarrow> do_camera_stuff cfg setup_succeeds (t # ts) = (Some (Raised NameError), []))
   \<and> (CAMERA_INFERENCE cfg \<and> setup_succeeds
      \<longrightarrow> fst (monitor_frame cfg (enable_camera_inference cfg setup_succeeds) st t) \<noteq> Inl NameError
          \<and> fst (monitor_pass cfg (enable_camera_inference cfg setup_succeeds) st t) \<noteq> Raised NameError)"
proof (intro conjI impI)
  assume "\<not> (CAMERA_INFERENCE cfg \<and> setup_succeeds)"
  then have e: "enable_camera_inference cfg setup_succeeds = False"
    by (auto simp: enable_camera_inference_def)
  have "monitor_pass cfg False initial_locals t = (Raised NameError, initial_locals, [])"
    by (simp add: monitor_pass_def take_frame_def update_food_status_def
          differs_and_confident_def counter_exceeds_delay_def module_global_config_def initial_locals_def Let_def)
  then show "do_camera_stuff cfg setup_succeeds (t # ts) = (Some (Raised NameError), [])"
    by (simp add: do_camera_stuff_def e)
next
  assume "CAMERA_INFERENCE cfg \<and> setup_succeeds"
  then have e: "enable_camera_inference cfg setup_succeeds = True"
    by (simp add: enable_camera_inference_def)
  show "fst (monitor_frame cfg (enable_camera_inference cfg setup_succeeds) st t) \<noteq> Inl NameError"
    unfolding e
    by (auto simp: monitor_frame_def take_frame_def update_food_status_def
          differs_and_confident_def counter_exceeds_delay_def module_global_config_def Let_def split: prod.splits option.splits)
  show "fst (monitor_pass cfg (enable_camera_inference cfg setup_succeeds) st t) \<noteq> Raised NameError"
    unfolding e
    using save_for_labels_control[of cfg "Captured (frame t)" "lame t" "now t" "map fst (LABELS cfg)" "[]"]
    by (auto simp: monitor_pass_def take_frame_def update_food_status_def
          differs_and_confident_def counter_exceeds_delay_def module_global_config_def monitor_key_def Let_def split: prod.splits option.splits sum.splits)
qed

theorem monitor_loop_without_inference_witness:
  "\<not> (CAMERA_INFERENCE (example_configuration\<lparr>CAMERA_INFERENCE := False\<rparr>) \<and> True)
   \<and> do_camera_stuff (example_configuration\<lparr>CAMERA_INFERENCE := False\<rparr>) True [example_tick]
       = (Some (Raised NameError), [])"
proof -
  have h: "\<not> (CAMERA_INFERENCE (example_configuration\<lparr>CAMERA_INFERENCE := False\<rparr>) \<and> True)"
    by simp
  from monitor_loop_without_inference
         [of "example_configuration\<lparr>CAMERA_INFERENCE := False\<rparr>" True example_tick "[]"] h
  show ?thesis by blast
qed

lemma save_for_labels_eq:
  assumes "\<forall>a \<in> set keys. length a = 1 \<and> map_of (FOLDERS cfg) a \<noteq> None"
  shows "save_for_labels cfg img key stamp keys acc =
           (Continue,
            acc @ map (\<lambda>a. Imwrite (the (map_of (FOLDERS cfg) a) @ ''/'' @ stamp @ ''.'' @ EXTENSION cfg) img)
                    (filter (\<lambda>a. py_ord a = Inr key) keys))"
  using assms
proof (induction keys arbitrary: acc)
  case Nil
  show ?case by simp
next
  case (Cons a keys)
  from Cons.prems obtain c where a: "a = [c]" by (cases a) auto
  from Cons.prems obtain folder where f: "map_of (FOLDERS cfg) a = Some folder" by auto
  have rest: "\<forall>a \<in> set keys. length a = 1 \<and> map_of (FOLDERS cfg) a \<noteq> None"
    using Cons.prems by simp
  have o: "py_ord a = Inr (of_char c)" by (simp add: py_ord_def a)
  show ?case
  proof (cases "key = of_char c")
    case True
    then show ?thesis using Cons.IH[OF rest] o f by (simp add: Let_def)
  next
    case False
    then have "py_ord a \<noteq> Inr key" using o by auto
    then show ?thesis using Cons.IH[OF rest] o False by (simp add: Let_def)
  qed
qed

lemma save_for_labels_no_match:
  assumes "\<forall>a \<in> set keys. length a = 1 \<and> py_ord a \<noteq> Inr key"
  shows "save_for_labels cfg img key stamp keys acc = (Continue, acc)"
  using assms
proof (induction keys arbitrary: acc)
  case Nil
  show ?case by simp
next
  case (Cons a keys)
  from Cons.prems obtain c where a: "a = [c]" by (cases a) auto
  have o: "py_ord a = Inr (of_char c)" by (simp add: py_ord_def a)
  then have "key \<noteq> of_char c" using Cons.prems by auto
  then show ?case using Cons o by simp
qed

lemma map_of_renamed:
  "a \<in> set (map fst xs) \<Longrightarrow> map_of (map (\<lambda>(each, name). (each, g name)) xs) a \<noteq> None"
  by (induction xs) auto

lemma prepared_folders:
  "a \<in> set (map fst (LABELS cfg)) \<Longrightarrow>
     map_of (FOLDERS (prepare_folders_and_options dirsep cfg)) a \<noteq> None"
  using map_of_renamed[of a "LABELS cfg" "\<lambda>name. ROOT_FOLDER cfg @ dirsep @ name"]
  by (simp add: prepare_folders_and_options_def)

text \<open>
  Claim C5. The dispatch on the key in DataHandler.py, in the order of the source:
  Escape leaves the loop; F1 posts \<open>ON\<close> and F2 posts \<open>OFF\<close> and the loop goes on; no key
  goes on; any other key writes the frame, as it was captured, to the folder of each
  label whose character it is, under the name made of the time stamp and the
  extension, and does nothing when it is the character of no label. The picture shown
  is another one than the frame written.
\<close>

theorem handle_key_dispatch:
  "handle_key cfg img 27 stamp = (Break, [])
   \<and> handle_key cfg img 190 stamp =
        (Continue, [Post ''http://192.168.1.75:8080/rest/items/TestSwitch001'' ''ON''])
   \<and> handle_key cfg img 191 stamp =
        (Continue, [Post ''http://192.168.1.75:8080/rest/items/TestSwitch001'' ''OFF''])
   \<and> handle_key cfg img (- 1) stamp = (Continue, [])
   \<and> (key \<noteq> 27 \<and> key \<noteq> 190 \<and> key \<noteq> 191 \<and> key \<noteq> - 1
        \<and> (\<forall>a \<in> set (map fst (LABELS cfg)). length a = 1 \<and> map_of (FOLDERS cfg) a \<noteq> None)
      \<longrightarrow> handle_key cfg img key stamp =
            (Continue,
             map (\<lambda>a. Imwrite (the (map_of (FOLDERS cfg) a) @ ''/'' @ stamp @ ''.'' @ EXTENSION cfg) img)
               (filter (\<lambda>a. py_ord a = Inr key) (map fst (LABELS cfg)))))
   \<and> (key \<noteq> 27 \<and> key \<noteq> 190 \<and> key \<noteq> 191
        \<and> (\<forall>a \<in> set (map fst (LABELS cfg)). length a = 1 \<and> py_ord a \<noteq> Inr key)
      \<longrightarrow> handle_key cfg img key stamp = (Continue, []))
   \<and> ((enable \<longrightarrow> map_of (INFERENCE_LABELS cfg) (fst (inference_info t)) \<noteq> None)
      \<longrightarrow> (\<exists>shown. data_handler_pass cfg enable t =
             (fst (handle_key cfg (Captured (frame t)) (lame t) (now t)),
              Imshow shown # snd (handle_key cfg (Captured (frame t)) (lame t) (now t)))))"
proof -
  have a: "handle_key cfg img 27 stamp = (Break, [])" by (simp add: handle_key_def)
  have b: "handle_key cfg img 190 stamp =
        (Continue, [Post ''http://192.168.1.75:8080/rest/items/TestSwitch001'' ''ON''])"
    by (simp add: handle_key_def)
  have c: "handle_key cfg img 191 stamp =
        (Continue, [Post ''http://192.168.1.75:8080/rest/items/TestSwitch001'' ''OFF''])"
    by (simp add: handle_key_def)
  have d: "handle_key cfg img (- 1) stamp = (Continue, [])" by (simp add: handle_key_def)
  have e: "key \<noteq> 27 \<and> key \<noteq> 190 \<and> key \<noteq> 191 \<and> key \<noteq> - 1
        \<and> (\<forall>a \<in> set (map fst (LABELS cfg)). length a = 1 \<and> map_of (FOLDERS cfg) a \<noteq> None)
      \<longrightarrow> handle_key cfg img key stamp =
            (Continue,
             map (\<lambda>a. Imwrite (the (map_of (FOLDERS cfg) a) @ ''/'' @ stamp @ ''.'' @ EXTENSION cfg) img)
               (filter (\<lambda>a. py_ord a = Inr key) (map fst (LABELS cfg))))"
    using save_for_labels_eq[of "map fst (LABELS cfg)" cfg img key stamp "[]"]
    by (simp add: handle_key_def)
  have f: "key \<noteq> 27 \<and> key \<noteq> 190 \<and> key \<noteq> 191
        \<and> (\<forall>a \<in> set (map fst (LABELS cfg)). length a = 1 \<and> py_ord a \<noteq> Inr key)
      \<longrightarrow> handle_key cfg img key stamp = (Continue, [])"
    using save_for_labels_no_match[of "map fst (LABELS cfg)" key cfg img stamp "[]"]
    by (simp add: handle_key_def)
  have g: "(enable \<longrightarrow> map_of (INFERENCE_LABELS cfg) (fst (inference_info t)) \<noteq> None)
      \<longrightarrow> (\<exists>shown. data_handler_pass cfg enable t =
             (fst (handle_key cfg (Captured (frame t)) (lame t) (now t)),
              Imshow shown # snd (handle_key cfg (Captured (frame t)) (lame t) (now t))))"
    by (cases enable) (auto simp: data_handler_pass_def Let_def split: prod.splits option.splits)
  from a b c d e f g show ?thesis by blast
qed

theorem handle_key_dispatch_witness:
  "(49::int) \<noteq> 27 \<and> (49::int) \<noteq> 190 \<and> (49::int) \<noteq> 191 \<and> (49::int) \<noteq> - 1
   \<and> handle_key example_configuration (Captured (frame example_tick)) 49 (now example_tick)
       = (Continue, [Imwrite ''/data/empty/20240101_010101.png'' (Captured (5::nat))])"
proof -
  have k: "(49::int) \<noteq> 27 \<and> (49::int) \<noteq> 190 \<and> (49::int) \<noteq> 191 \<and> (49::int) \<noteq> - 1" by simp
  have w: "\<forall>a \<in> set (map fst (LABELS example_configuration)).
             length a = 1 \<and> map_of (FOLDERS example_configuration) a \<noteq> None"
    by (simp add: example_configuration_def prepare_folders_and_options_def)
  from handle_key_dispatch
         [of example_configuration "Captured (frame example_tick)" "now example_tick" 49] k w
  have "handle_key example_configuration (Captured (frame example_tick)) 49 (now example_tick) =
            (Continue,
             map (\<lambda>a. Imwrite (the (map_of (FOLDERS example_configuration) a) @ ''/''
                                 @ now example_tick @ ''.'' @ EXTENSION example_configuration)
                          (Captured (frame example_tick)))
               (filter (\<lambda>a. py_ord a = Inr 49) (map fst (LABELS example_configuration))))"
    by blast
  then show ?thesis
    by (simp add: example_configuration_def prepare_folders_and_options_def example_tick_def py_ord_def)
qed

end
